theory Spec2Isabelle
  imports Complex_Main
begin

section \<open>The chi-squared cumulative distribution function, in floats and in fractions\<close>

text \<open>
  Two modules compute \<open>cdf(x, k) = 1 - gamma(k/2, x/2) / Gamma_Half(k/2)\<close>:
  \<^item> \<^verbatim>\<open>Bonus/chi_sq.py\<close> works on Python floats; its functions carry the suffix \<open>_flt\<close> here;
  \<^item> \<^verbatim>\<open>Chapter16/ch16_ex3.py\<close> works on \<^verbatim>\<open>fractions.Fraction\<close>; its functions carry the
    suffix \<open>_frac\<close> here.

  Python integers are \<^typ>\<open>int\<close>, Fractions are \<^typ>\<open>rat\<close>, and every exception is a value
  \<open>Inl e\<close> of the result type.
\<close>

subsection \<open>Errors and the arithmetic of the interpreter\<close>

datatype error = ValueError | ZeroDivisionError | OverflowError | TypeError

text \<open>
  The float module is written against the float arithmetic of the interpreter, which is no
  part of the repository. It is a parameter of the model: one field for each operation
  the module uses, with a result in \<open>error + 'f\<close> where Python can raise.
  \<^item> \<open>f_of_int\<close>: the conversion of an integer operand in mixed arithmetic;
  \<^item> \<open>f_const\<close>: the value of a float literal, given as the decimal fraction written;
  \<^item> \<open>int_truediv\<close>: \<^verbatim>\<open>/\<close> on two integers; \<open>f_truediv\<close>: \<^verbatim>\<open>/\<close> on floats;
  \<^item> \<open>f_pow\<close>: \<^verbatim>\<open>**\<close> on floats; \<open>f_int\<close>: \<^verbatim>\<open>int(x)\<close>; \<open>f_sqrt\<close>: \<^verbatim>\<open>math.sqrt\<close>;
  \<^item> \<open>f_sum\<close>: the builtin \<^verbatim>\<open>sum\<close> on a sequence of floats;
  \<^item> \<open>f_pi\<close>, \<open>f_e\<close>: \<^verbatim>\<open>math.pi\<close> and \<^verbatim>\<open>math.e\<close>.
\<close>

record 'f float_ops =
  f_of_int :: "int \<Rightarrow> 'f"
  f_const :: "rat \<Rightarrow> 'f"
  f_add :: "'f \<Rightarrow> 'f \<Rightarrow> 'f"
  f_sub :: "'f \<Rightarrow> 'f \<Rightarrow> 'f"
  f_mul :: "'f \<Rightarrow> 'f \<Rightarrow> 'f"
  f_truediv :: "'f \<Rightarrow> 'f \<Rightarrow> error + 'f"
  int_truediv :: "int \<Rightarrow> int \<Rightarrow> error + 'f"
  f_pow :: "'f \<Rightarrow> 'f \<Rightarrow> error + 'f"
  f_abs :: "'f \<Rightarrow> 'f"
  f_less :: "'f \<Rightarrow> 'f \<Rightarrow> bool"
  f_int :: "'f \<Rightarrow> error + int"
  f_sqrt :: "'f \<Rightarrow> error + 'f"
  f_sum :: "'f list \<Rightarrow> 'f"
  f_pi :: "'f"
  f_e :: "'f"

text \<open>Sequencing of computations that can raise: the first error is the result.\<close>

definition and_then :: "error + 'a \<Rightarrow> ('a \<Rightarrow> error + 'b) \<Rightarrow> error + 'b" where
  "and_then r f = (case r of Inl e \<Rightarrow> Inl e | Inr v \<Rightarrow> f v)"

text \<open>\<^verbatim>\<open>functools.reduce(f, xs)\<close> without an initial value raises on an empty sequence.\<close>

fun reduce :: "('a \<Rightarrow> 'a \<Rightarrow> 'a) \<Rightarrow> 'a list \<Rightarrow> error + 'a" where
  "reduce f [] = Inl TypeError"
| "reduce f (x # xs) = Inr (foldl f x xs)"

text \<open>\<^verbatim>\<open>int(r)\<close> on a Fraction truncates towards zero.\<close>

definition py_int :: "rat \<Rightarrow> int" where
  "py_int r = (if 0 \<le> r then \<lfloor>r\<rfloor> else \<lceil>r\<rceil>)"

text \<open>\<^verbatim>\<open>Fraction(n, d)\<close> and \<^verbatim>\<open>a / b\<close> on Fractions raise on a zero denominator.\<close>

definition Fraction :: "int \<Rightarrow> int \<Rightarrow> error + rat" where
  "Fraction n d = (if d = 0 then Inl ZeroDivisionError else Inr (Fract n d))"

definition frac_div :: "rat \<Rightarrow> rat \<Rightarrow> error + rat" where
  "frac_div a b = (if b = 0 then Inl ZeroDivisionError else Inr (a / b))"

text \<open>
  \<^verbatim>\<open>Fraction.__pow__\<close>: a power with an integral exponent is exact; any other exponent is
  computed as \<^verbatim>\<open>float(a) ** float(b)\<close>. \<^verbatim>\<open>Fraction(...)\<close> around the result turns that float
  into the rational it denotes. The float power followed by this conversion is the
  parameter \<open>float_pow\<close>.
\<close>

definition frac_pow_integral :: "rat \<Rightarrow> int \<Rightarrow> error + rat" where
  "frac_pow_integral a n =
     (if n \<ge> 0 then Inr (a ^ nat n)
      else if a = 0 then Inl ZeroDivisionError
      else Inr ((1 / a) ^ nat (- n)))"

definition frac_pow :: "(rat \<Rightarrow> rat \<Rightarrow> error + rat) \<Rightarrow> rat \<Rightarrow> rat \<Rightarrow> error + rat" where
  "frac_pow float_pow a b =
     (if snd (quotient_of b) = 1 then frac_pow_integral a (fst (quotient_of b))
      else float_pow a b)"

subsection \<open>Factorial\<close>

text \<open>
  \<^verbatim>\<open>if k < 2: return 1\<close>, then \<^verbatim>\<open>reduce(operator.mul, range(2, k+1))\<close>. The Chapter 16
  version takes a Fraction as well and uses \<^verbatim>\<open>range(2, int(k)+1)\<close>. The \<^verbatim>\<open>lru_cache\<close> around
  both does not change any result.
\<close>

definition fact_flt :: "int \<Rightarrow> error + int" where
  "fact_flt k = (if k < 2 then Inr 1 else reduce (*) [2..k])"

definition fact_frac :: "rat \<Rightarrow> error + int" where
  "fact_frac k = (if k < 2 then Inr 1 else reduce (*) [2..py_int k])"

subsection \<open>Incomplete gamma\<close>

text \<open>
  \<^verbatim>\<open>take_until(function, source)\<close> is the same generator in both modules. The source is the
  sequence of the results of computing each term in turn; it is consumed up to the first
  value for which \<open>function\<close> holds, or up to the first term that raises. The boolean says
  whether the source was consumed to its end, which is when the statements after the
  \<^verbatim>\<open>for\<close> loop of \<^verbatim>\<open>terms\<close> run.
\<close>

fun take_until :: "('a \<Rightarrow> bool) \<Rightarrow> (error + 'a) list \<Rightarrow> error + ('a list \<times> bool)" where
  "take_until function [] = Inr ([], True)"
| "take_until function (Inl e # source) = Inl e"
| "take_until function (Inr v # source) =
     (if function v then Inr ([], False)
      else and_then (take_until function source) (\<lambda>(vs, exhausted). Inr (v # vs, exhausted)))"

text \<open>
  Chapter 16: \<^verbatim>\<open>t2 = Fraction(z**(s+k))/(s+k)\<close>, \<^verbatim>\<open>term = Fraction((-1)**k, fact(k))*t2\<close>,
  for \<^verbatim>\<open>k in range(100)\<close>, and \<^verbatim>\<open>warnings.warn("More than 100 terms")\<close> after the loop.
  The threshold \<^verbatim>\<open>1E-8\<close> is a float; a Fraction is compared with the exact value of that
  float, which is \<open>3022314549036573 / 2 ^ 78\<close>. The result carries the warnings issued.
\<close>

definition \<epsilon>_frac :: rat where
  "\<epsilon>_frac = 3022314549036573 / 2 ^ 78"

definition terms_frac :: "(rat \<Rightarrow> rat \<Rightarrow> error + rat) \<Rightarrow> rat \<Rightarrow> rat \<Rightarrow> nat \<Rightarrow> error + rat" where
  "terms_frac float_pow s z k =
     and_then (frac_pow float_pow z (s + of_nat k)) (\<lambda>p.
     and_then (frac_div p (s + of_nat k)) (\<lambda>t2.
     and_then (fact_frac (of_nat k)) (\<lambda>fk.
     and_then (Fraction ((- 1) ^ k) fk) (\<lambda>sign.
     Inr (sign * t2)))))"

definition gamma_frac ::
  "(rat \<Rightarrow> rat \<Rightarrow> error + rat) \<Rightarrow> rat \<Rightarrow> rat \<Rightarrow> error + (rat \<times> string list)" where
  "gamma_frac float_pow s z =
     and_then (take_until (\<lambda>t. \<bar>t\<bar> < \<epsilon>_frac) (map (terms_frac float_pow s z) [0..<100]))
       (\<lambda>(vs, exhausted).
          Inr (foldl (+) 0 vs, if exhausted then [''More than 100 terms''] else []))"

text \<open>
  Bonus: \<^verbatim>\<open>term = ((-1)**k/fact(k))*(z**(s+k)/(s+k))\<close> for \<^verbatim>\<open>k in range(1000)\<close>, on floats
  \<open>s\<close> and \<open>z\<close>; nothing follows the loop.
\<close>

definition terms_flt :: "'f float_ops \<Rightarrow> 'f \<Rightarrow> 'f \<Rightarrow> nat \<Rightarrow> error + 'f" where
  "terms_flt ops s z k =
     and_then (fact_flt (int k)) (\<lambda>fk.
     and_then (int_truediv ops ((- 1) ^ k) fk) (\<lambda>c.
     and_then (f_pow ops z (f_add ops s (f_of_int ops (int k)))) (\<lambda>p.
     and_then (f_truediv ops p (f_add ops s (f_of_int ops (int k)))) (\<lambda>q.
     Inr (f_mul ops c q)))))"

definition \<epsilon>_flt :: "'f float_ops \<Rightarrow> 'f" where
  "\<epsilon>_flt ops = f_const ops (1 / 10 ^ 8)"

definition gamma_flt :: "'f float_ops \<Rightarrow> 'f \<Rightarrow> 'f \<Rightarrow> error + 'f" where
  "gamma_flt ops s z =
     and_then (take_until (\<lambda>t. f_less ops (f_abs ops t) (\<epsilon>_flt ops))
                 (map (terms_flt ops s z) [0..<1000]))
       (\<lambda>(vs, exhausted). Inr (f_sum ops vs))"

subsection \<open>Complete gamma\<close>

text \<open>
  Bonus, the Nemes form: \<^verbatim>\<open>t_1 = math.sqrt(2*math.pi/z)\<close>,
  \<^verbatim>\<open>t_2 = (z+(1/(12*z-(1/(10*z)))))/math.e\<close>, \<^verbatim>\<open>return t_1*t_2**z\<close>.
\<close>

definition Gamma2 :: "'f float_ops \<Rightarrow> 'f \<Rightarrow> error + 'f" where
  "Gamma2 ops z =
     and_then (f_truediv ops (f_mul ops (f_of_int ops 2) (f_pi ops)) z) (\<lambda>a.
     and_then (f_sqrt ops a) (\<lambda>t_1.
     and_then (f_truediv ops (f_of_int ops 1) (f_mul ops (f_of_int ops 10) z)) (\<lambda>b.
     and_then (f_truediv ops (f_of_int ops 1)
                 (f_sub ops (f_mul ops (f_of_int ops 12) z) b)) (\<lambda>c.
     and_then (f_truediv ops (f_add ops z c) (f_e ops)) (\<lambda>t_2.
     and_then (f_pow ops t_2 z) (\<lambda>p.
     Inr (f_mul ops t_1 p)))))))"

text \<open>
  Bonus, the hybrid: \<^verbatim>\<open>if abs(k-int(k)-.5) < 1E-6\<close> then \<^verbatim>\<open>n = int(k-.5)\<close> and
  \<^verbatim>\<open>fact(2*n)/(4**n*fact(n))*math.sqrt(math.pi)\<close>, else \<^verbatim>\<open>float(Gamma2(k))\<close>.
  \<^verbatim>\<open>4**n\<close> is an integer for \<open>n \<ge> 0\<close> and a float otherwise.
\<close>

definition Gamma_Half_flt :: "'f float_ops \<Rightarrow> 'f \<Rightarrow> error + 'f" where
  "Gamma_Half_flt ops k =
     and_then (f_int ops k) (\<lambda>ik.
       if f_less ops
            (f_abs ops (f_sub ops (f_sub ops k (f_of_int ops ik)) (f_const ops (1 / 2))))
            (f_const ops (1 / 10 ^ 6))
       then
         and_then (f_int ops (f_sub ops k (f_const ops (1 / 2)))) (\<lambda>n.
         and_then (fact_flt (2 * n)) (\<lambda>f2n.
         and_then (fact_flt n) (\<lambda>fn.
         and_then
           (if 0 \<le> n then int_truediv ops f2n (4 ^ nat n * fn)
            else and_then (f_pow ops (f_of_int ops 4) (f_of_int ops n)) (\<lambda>p4.
                 f_truediv ops (f_of_int ops f2n) (f_mul ops p4 (f_of_int ops fn)))) (\<lambda>q.
         and_then (f_sqrt ops (f_pi ops)) (\<lambda>r.
         Inr (f_mul ops q r))))))
       else Gamma2 ops k)"

text \<open>
  Chapter 16: an integer, or a Fraction of denominator 1, gives \<^verbatim>\<open>fact(k-1)\<close>; a Fraction
  of denominator 2 gives \<^verbatim>\<open>fact(2*n)/(Fraction(4**n)*fact(n))*sqrt_pi\<close> with
  \<^verbatim>\<open>n = k-Fraction(1, 2)\<close>, which is integral, so that \<^verbatim>\<open>4**n\<close> is exact; anything else
  raises \<^verbatim>\<open>ValueError\<close>. An integer argument is the Fraction of denominator 1 here.
\<close>

definition sqrt_pi :: rat where
  "sqrt_pi = 677622787 / 382307718"

definition Gamma_Half_frac :: "rat \<Rightarrow> error + rat" where
  "Gamma_Half_frac k =
     (if snd (quotient_of k) = 1 then and_then (fact_frac (k - 1)) (\<lambda>f. Inr (of_int f))
      else if snd (quotient_of k) = 2 then
        (let n = k - 1 / 2 in
         and_then (fact_frac (2 * n)) (\<lambda>f2n.
         and_then (frac_pow_integral 4 (fst (quotient_of n))) (\<lambda>p4.
         and_then (fact_frac n) (\<lambda>fn.
         and_then (frac_div (of_int f2n) (p4 * of_int fn)) (\<lambda>q.
         Inr (q * sqrt_pi))))))
      else Inl ValueError)"

subsection \<open>Cumulative distribution function\<close>

text \<open>
  Bonus: \<^verbatim>\<open>return 1-gamma(k/2, x/2)/Gamma_Half(k/2)\<close>, with \<open>x\<close> a float and \<open>k\<close> an integer.
\<close>

definition cdf_flt :: "'f float_ops \<Rightarrow> 'f \<Rightarrow> int \<Rightarrow> error + 'f" where
  "cdf_flt ops x k =
     and_then (int_truediv ops k 2) (\<lambda>s.
     and_then (f_truediv ops x (f_of_int ops 2)) (\<lambda>z.
     and_then (gamma_flt ops s z) (\<lambda>g.
     and_then (int_truediv ops k 2) (\<lambda>s'.
     and_then (Gamma_Half_flt ops s') (\<lambda>G.
     and_then (f_truediv ops g G) (\<lambda>q.
     Inr (f_sub ops (f_of_int ops 1) q)))))))"

text \<open>
  Chapter 16: \<^verbatim>\<open>return 1-gamma(Fraction(k, 2), Fraction(x/2))/Gamma_Half(Fraction(k, 2))\<close>,
  value by value: \<open>gamma_frac\<close>, \<open>Gamma_Half_frac\<close> and \<open>cdf_frac\<close> give the rational number
  that each result denotes, for a statistic \<open>x\<close> that is a Fraction. Whether a number is a
  Python \<^verbatim>\<open>int\<close>, \<^verbatim>\<open>Fraction\<close> or \<^verbatim>\<open>float\<close>, and the float operations that this decides
  (\<^verbatim>\<open>x/2\<close> for a float or an int \<open>x\<close>, the quotient of two ints), are in \<open>cdf_repr\<close> below.
  The warnings of \<open>gamma\<close> are passed on.
\<close>

definition cdf_frac ::
  "(rat \<Rightarrow> rat \<Rightarrow> error + rat) \<Rightarrow> rat \<Rightarrow> int \<Rightarrow> error + (rat \<times> string list)" where
  "cdf_frac float_pow x k =
     and_then (gamma_frac float_pow (Fract k 2) (x / 2)) (\<lambda>(g, warned).
     and_then (Gamma_Half_frac (Fract k 2)) (\<lambda>G.
     and_then (frac_div g G) (\<lambda>q.
     Inr (1 - q, warned))))"

subsection \<open>The Fraction module, with the representation of each number\<close>

text \<open>
  A number of the Chapter 16 module is an \<^verbatim>\<open>int\<close>, a \<^verbatim>\<open>Fraction\<close> or a \<^verbatim>\<open>float\<close>, and Python
  chooses each operation by the representations of its operands. Two conversions join
  the exact and the float numbers: \<^verbatim>\<open>float(r)\<close> on a Fraction, which can overflow, and
  \<^verbatim>\<open>Fraction(f)\<close> on a float, which is exact and raises on an infinity or a NaN. They
  are parameters, as the float operations are.
\<close>

datatype 'f number = PyInt int | PyFraction rat | PyFloat 'f

record 'f conversions =
  float_of_Fraction :: "rat \<Rightarrow> error + 'f"
  Fraction_of_float :: "'f \<Rightarrow> error + rat"

text \<open>
  The power of a Fraction by a non-integral Fraction, inside \<^verbatim>\<open>Fraction(...)\<close>:
  \<^verbatim>\<open>Fraction(float(a) ** float(b))\<close>.
\<close>

definition Fraction_float_pow ::
  "'f float_ops \<Rightarrow> 'f conversions \<Rightarrow> rat \<Rightarrow> rat \<Rightarrow> error + rat" where
  "Fraction_float_pow ops conv a b =
     and_then (float_of_Fraction conv a) (\<lambda>fa.
     and_then (float_of_Fraction conv b) (\<lambda>fb.
     and_then (f_pow ops fa fb) (\<lambda>p.
     Fraction_of_float conv p)))"

text \<open>
  \<^verbatim>\<open>sum\<close> starts from the int 0: the sum of no term is that int, and any other sum of
  Fractions is a Fraction. Every term is a Fraction, so \<open>gamma\<close> returns one or the other.
\<close>

fun py_sum :: "rat list \<Rightarrow> 'f number" where
  "py_sum [] = PyInt 0"
| "py_sum (v # vs) = PyFraction (foldl (+) 0 (v # vs))"

definition gamma_repr ::
  "'f float_ops \<Rightarrow> 'f conversions \<Rightarrow> rat \<Rightarrow> rat \<Rightarrow> error + ('f number \<times> string list)" where
  "gamma_repr ops conv s z =
     and_then (take_until (\<lambda>t. \<bar>t\<bar> < \<epsilon>_frac)
                 (map (terms_frac (Fraction_float_pow ops conv) s z) [0..<100]))
       (\<lambda>(vs, exhausted).
          Inr (py_sum vs, if exhausted then [''More than 100 terms''] else []))"

text \<open>
  \<open>Gamma_Half\<close> returns the int \<^verbatim>\<open>fact(k-1)\<close> for a denominator 1 and a Fraction for a
  denominator 2.
\<close>

definition Gamma_Half_repr :: "rat \<Rightarrow> error + 'f number" where
  "Gamma_Half_repr k =
     (if snd (quotient_of k) = 1 then and_then (fact_frac (k - 1)) (\<lambda>f. Inr (PyInt f))
      else if snd (quotient_of k) = 2 then
        (let n = k - 1 / 2 in
         and_then (fact_frac (2 * n)) (\<lambda>f2n.
         and_then (frac_pow_integral 4 (fst (quotient_of n))) (\<lambda>p4.
         and_then (fact_frac n) (\<lambda>fn.
         and_then (frac_div (of_int f2n) (p4 * of_int fn)) (\<lambda>q.
         Inr (PyFraction (q * sqrt_pi)))))))
      else Inl ValueError)"

text \<open>
  \<^verbatim>\<open>a / b\<close>: two ints divide into a float; an int and a Fraction, or two Fractions, into a
  Fraction; and with a float operand the other one is converted to a float.
\<close>

fun truediv :: "'f float_ops \<Rightarrow> 'f conversions \<Rightarrow> 'f number \<Rightarrow> 'f number \<Rightarrow> error + 'f number" where
  "truediv ops conv (PyInt a) (PyInt b) =
     and_then (int_truediv ops a b) (\<lambda>f. Inr (PyFloat f))"
| "truediv ops conv (PyInt a) (PyFraction b) =
     and_then (frac_div (of_int a) b) (\<lambda>q. Inr (PyFraction q))"
| "truediv ops conv (PyInt a) (PyFloat b) =
     and_then (f_truediv ops (f_of_int ops a) b) (\<lambda>f. Inr (PyFloat f))"
| "truediv ops conv (PyFraction a) (PyInt b) =
     and_then (frac_div a (of_int b)) (\<lambda>q. Inr (PyFraction q))"
| "truediv ops conv (PyFraction a) (PyFraction b) =
     and_then (frac_div a b) (\<lambda>q. Inr (PyFraction q))"
| "truediv ops conv (PyFraction a) (PyFloat b) =
     and_then (float_of_Fraction conv a) (\<lambda>fa.
     and_then (f_truediv ops fa b) (\<lambda>f. Inr (PyFloat f)))"
| "truediv ops conv (PyFloat a) (PyInt b) =
     and_then (f_truediv ops a (f_of_int ops b)) (\<lambda>f. Inr (PyFloat f))"
| "truediv ops conv (PyFloat a) (PyFraction b) =
     and_then (float_of_Fraction conv b) (\<lambda>fb.
     and_then (f_truediv ops a fb) (\<lambda>f. Inr (PyFloat f)))"
| "truediv ops conv (PyFloat a) (PyFloat b) =
     and_then (f_truediv ops a b) (\<lambda>f. Inr (PyFloat f))"

text \<open>\<^verbatim>\<open>1 - q\<close> and \<^verbatim>\<open>Fraction(v)\<close>.\<close>

fun one_minus :: "'f float_ops \<Rightarrow> 'f number \<Rightarrow> 'f number" where
  "one_minus ops (PyInt q) = PyInt (1 - q)"
| "one_minus ops (PyFraction q) = PyFraction (1 - q)"
| "one_minus ops (PyFloat q) = PyFloat (f_sub ops (f_of_int ops 1) q)"

fun to_Fraction :: "'f conversions \<Rightarrow> 'f number \<Rightarrow> error + rat" where
  "to_Fraction conv (PyInt i) = Inr (of_int i)"
| "to_Fraction conv (PyFraction r) = Inr r"
| "to_Fraction conv (PyFloat f) = Fraction_of_float conv f"

definition cdf_repr ::
  "'f float_ops \<Rightarrow> 'f conversions \<Rightarrow> 'f number \<Rightarrow> int \<Rightarrow> error + ('f number \<times> string list)" where
  "cdf_repr ops conv x k =
     and_then (truediv ops conv x (PyInt 2)) (\<lambda>half.
     and_then (to_Fraction conv half) (\<lambda>z.
     and_then (gamma_repr ops conv (Fract k 2) z) (\<lambda>(g, warned).
     and_then (Gamma_Half_repr (Fract k 2)) (\<lambda>G.
     and_then (truediv ops conv g G) (\<lambda>q.
     Inr (one_minus ops q, warned))))))"

subsection \<open>The series of the specification\<close>

text \<open>
  The term of index \<open>j\<close> of the series as the specification writes it,
  \<open>(-1)^j / j! \<cdot> z^(s+j) / (s+j)\<close>, for a natural number \<open>s = m\<close>.
\<close>

definition series_term :: "nat \<Rightarrow> rat \<Rightarrow> nat \<Rightarrow> rat" where
  "series_term m z j = (- 1) ^ j / fact j * (z ^ (m + j) / of_nat (m + j))"

subsection \<open>Instances of the parameters\<close>

text \<open>
  A float power that raises at every call. An evaluation of the Fraction module with it
  returns a value only if the float power is never called, and returns this error as soon
  as it is.
\<close>

definition float_pow_trap :: "rat \<Rightarrow> rat \<Rightarrow> error + rat" where
  "float_pow_trap a b = Inl OverflowError"

text \<open>
  One instance of the float interface, in exact real arithmetic. It is not Python's
  float arithmetic, which rounds and overflows: it only shows, in the witnesses, that the
  hypotheses of the theorems over the interface can be met. A negative base with a
  non-integral exponent is a \<open>TypeError\<close> in it.
\<close>

definition real_pow :: "real \<Rightarrow> real \<Rightarrow> error + real" where
  "real_pow a b =
     (if b = of_int \<lfloor>b\<rfloor> then
        (if 0 \<le> b then Inr (a ^ nat \<lfloor>b\<rfloor>)
         else if a = 0 then Inl ZeroDivisionError
         else Inr ((1 / a) ^ nat (- \<lfloor>b\<rfloor>)))
      else if a < 0 then Inl TypeError
      else if a = 0 \<and> b < 0 then Inl ZeroDivisionError
      else Inr (a powr b))"

definition real_ops :: "real float_ops" where
  "real_ops =
     \<lparr> f_of_int = of_int,
       f_const = of_rat,
       f_add = (+),
       f_sub = (-),
       f_mul = (*),
       f_truediv = (\<lambda>a b. if b = 0 then Inl ZeroDivisionError else Inr (a / b)),
       int_truediv = (\<lambda>a b. if b = 0 then Inl ZeroDivisionError else Inr (of_int a / of_int b)),
       f_pow = real_pow,
       f_abs = abs,
       f_less = (<),
       f_int = (\<lambda>x. Inr (if 0 \<le> x then \<lfloor>x\<rfloor> else \<lceil>x\<rceil>)),
       f_sqrt = (\<lambda>x. if x < 0 then Inl ValueError else Inr (sqrt x)),
       f_sum = foldl (+) 0,
       f_pi = pi,
       f_e = exp 1 \<rparr>"

definition real_conv :: "real conversions" where
  "real_conv =
     \<lparr> float_of_Fraction = (\<lambda>r. Inr (of_rat r)),
       Fraction_of_float = (\<lambda>x. if x \<in> \<rat> then Inr (THE r. of_rat r = x) else Inl ValueError) \<rparr>"

text \<open>
  Partial sums of the series for \<open>s = 1\<close> and \<open>z = p / q\<close> in integers: after \<open>n\<close> steps
  the state is \<open>(N, D, P)\<close> with \<open>D = n! \<cdot> q^n\<close>, \<open>P = (-1)^n \<cdot> p^(n+1)\<close> and \<open>N / D\<close> the
  sum of the terms of index below \<open>n\<close>.
\<close>

fun int_series :: "int \<Rightarrow> int \<Rightarrow> nat \<Rightarrow> int \<times> int \<times> int" where
  "int_series p q 0 = (0, 1, p)"
| "int_series p q (Suc n) =
     (case int_series p q n of (N, D, P) \<Rightarrow>
        (int (Suc n) * q * N + P, int (Suc n) * q * D, - p * P))"

section \<open>Basic facts\<close>

lemma and_then_Inr [simp]: "and_then (Inr v) f = f v"
  by (simp add: and_then_def)

lemma and_then_Inl [simp]: "and_then (Inl e) f = Inl e"
  by (simp add: and_then_def)

subsection \<open>Factorial\<close>

lemma foldl_mult_upto: "0 \<le> k \<Longrightarrow> foldl (*) a [1..k] = a * fact (nat k)"
proof (induction k rule: int_ge_induct)
  case base
  show ?case by simp
next
  case (step i)
  have "[1..i + 1] = [1..i] @ [i + 1]" using step.hyps by (simp add: upto_rec2)
  moreover have "nat (i + 1) = Suc (nat i)" using step.hyps by simp
  ultimately show ?case using step by (simp add: algebra_simps)
qed

lemma reduce_mult_upto: "2 \<le> k \<Longrightarrow> reduce (*) [2..k] = Inr (fact (nat k))"
proof -
  assume k: "2 \<le> k"
  have "[1..k] = 1 # [2..k]" using k by (simp add: upto_rec1)
  then have "foldl (*) 1 [2..k] = foldl (*) 1 [1..k]" by simp
  also have "\<dots> = fact (nat k)" using k foldl_mult_upto [of k 1] by simp
  finally have f: "foldl (*) 1 [2..k] = fact (nat k)" .
  have "[2..k] = 2 # [3..k]" using k by (simp add: upto_rec1)
  moreover have "foldl (*) 1 (2 # [3..k]) = foldl (*) 2 [3..k]" by simp
  ultimately show ?thesis using f by simp
qed

lemma fact_flt_eq: "fact_flt k = Inr (fact (nat k))"
proof (cases "k < 2")
  case True
  then have "nat k = 0 \<or> nat k = 1" by auto
  then show ?thesis using True by (auto simp: fact_flt_def)
next
  case False
  then show ?thesis by (simp add: fact_flt_def reduce_mult_upto)
qed

lemma fact_frac_eq: "fact_frac k = Inr (fact (nat (py_int k)))"
proof (cases "k < 2")
  case True
  then have "py_int k < 2" unfolding py_int_def by (auto simp: floor_less_iff ceiling_less_iff)
  then have "nat (py_int k) = 0 \<or> nat (py_int k) = 1" by auto
  then show ?thesis using True by (auto simp: fact_frac_def)
next
  case False
  then have "2 \<le> py_int k" unfolding py_int_def by (auto simp: le_floor_iff)
  then show ?thesis using False by (simp add: fact_frac_def reduce_mult_upto)
qed

subsection \<open>The generator pipeline\<close>

lemma take_until_prefix:
  "\<forall>j \<in> set js. f j = Inr (t j) \<and> \<not> P (t j) \<Longrightarrow>
   take_until P (map f js @ rest) =
     and_then (take_until P rest) (\<lambda>(ws, exhausted). Inr (map t js @ ws, exhausted))"
proof (induction js)
  case Nil
  show ?case by (cases "take_until P rest") auto
next
  case (Cons j js)
  then show ?case by (cases "take_until P rest") auto
qed

lemma upt_split: "J < n \<Longrightarrow> [0..<n] = [0..<J] @ J # [Suc J..<n]"
  by (metis less_imp_le_nat upt_add_eq_append upt_conv_Cons plus_nat.add_0 le0 le_add_diff_inverse)

lemma take_until_upt_prefix:
  assumes "\<forall>j<J. f j = Inr (t j) \<and> \<not> P (t j)"
  shows "take_until P (map f [0..<J] @ rest) =
     and_then (take_until P rest) (\<lambda>(ws, exhausted). Inr (map t [0..<J] @ ws, exhausted))"
  using take_until_prefix [of "[0..<J]" f t P rest] assms by simp

lemma take_until_stop:
  assumes "J < n" and "\<forall>j<J. f j = Inr (t j) \<and> \<not> P (t j)"
    and "f J = Inr (t J)" and "P (t J)"
  shows "take_until P (map f [0..<n]) = Inr (map t [0..<J], False)"
proof -
  have "map f [0..<n] = map f [0..<J] @ (Inr (t J) # map f [Suc J..<n])"
    using assms(3) by (simp add: upt_split [OF assms(1)])
  then show ?thesis using assms(4) by (simp add: take_until_upt_prefix [OF assms(2)])
qed

lemma take_until_exhaust:
  assumes "\<forall>j<n. f j = Inr (t j) \<and> \<not> P (t j)"
  shows "take_until P (map f [0..<n]) = Inr (map t [0..<n], True)"
  using take_until_upt_prefix [OF assms, of "[]"] by simp

lemma take_until_raise:
  assumes "J < n" and "\<forall>j<J. f j = Inr (t j) \<and> \<not> P (t j)" and "f J = Inl e"
  shows "take_until P (map f [0..<n]) = Inl e"
proof -
  have "map f [0..<n] = map f [0..<J] @ (Inl e # map f [Suc J..<n])"
    using assms(3) by (simp add: upt_split [OF assms(1)])
  then show ?thesis by (simp add: take_until_upt_prefix [OF assms(2)])
qed

text \<open>What the pipeline does on a source of \<open>n\<close> terms, in one statement.\<close>

lemma take_until_upt:
  assumes "J \<le> n" and "\<forall>j<J. f j = Inr (t j) \<and> \<not> P (t j)"
    and "J < n \<longrightarrow> f J = Inr (t J) \<and> P (t J)"
  shows "take_until P (map f [0..<n]) = Inr (map t [0..<J], J = n)"
proof (cases "J = n")
  case True
  then show ?thesis using take_until_exhaust [of n f t P] assms(2) by simp
next
  case False
  then have "J < n" using assms(1) by simp
  then show ?thesis using take_until_stop [of J n f t P] assms(2,3) False by simp
qed

text \<open>When every term is computed, the pipeline returns a prefix of the source.\<close>

lemma take_until_total:
  assumes "\<forall>j<n. f j = Inr (t j)"
  shows "\<exists>J\<le>n. take_until P (map f [0..<n]) = Inr (map t [0..<J], J = n)
           \<and> (\<forall>j<J. \<not> P (t j)) \<and> (J < n \<longrightarrow> P (t J))"
proof (cases "\<exists>j<n. P (t j)")
  case True
  define J where "J = (LEAST j. j < n \<and> P (t j))"
  have J: "J < n \<and> P (t J)" unfolding J_def using True by (metis (mono_tags, lifting) LeastI)
  have least: "\<forall>j<J. \<not> P (t j)"
  proof (intro allI impI)
    fix j assume "j < J"
    then have "\<not> (j < n \<and> P (t j))" unfolding J_def by (rule not_less_Least)
    moreover have "j < n" using \<open>j < J\<close> J by simp
    ultimately show "\<not> P (t j)" by simp
  qed
  have "take_until P (map f [0..<n]) = Inr (map t [0..<J], J = n)"
    using take_until_upt [of J n f t P] J least assms by simp
  then show ?thesis using J least by (intro exI [of _ J]) simp
next
  case False
  then have "take_until P (map f [0..<n]) = Inr (map t [0..<n], n = n)"
    using take_until_upt [of n n f t P] assms by simp
  then show ?thesis using False by (intro exI [of _ n]) simp
qed

lemma foldl_add_sum: "foldl (+) a (map t [0..<J]) = a + (\<Sum>j<J. t j :: rat)"
  by (induction J arbitrary: a) (simp_all add: algebra_simps)

subsection \<open>Incomplete gamma on Fractions\<close>

lemma gamma_frac_upto:
  assumes "J \<le> 100" and "\<forall>j<J. terms_frac fp s z j = Inr (t j) \<and> \<not> \<bar>t j\<bar> < \<epsilon>_frac"
    and "J < 100 \<longrightarrow> terms_frac fp s z J = Inr (t J) \<and> \<bar>t J\<bar> < \<epsilon>_frac"
  shows "gamma_frac fp s z =
           Inr (\<Sum>j<J. t j, if J = 100 then [''More than 100 terms''] else [])"
proof -
  have "take_until (\<lambda>t. \<bar>t\<bar> < \<epsilon>_frac) (map (terms_frac fp s z) [0..<100]) =
          Inr (map t [0..<J], J = 100)"
    using take_until_upt [of J 100 "terms_frac fp s z" t "\<lambda>t. \<bar>t\<bar> < \<epsilon>_frac"] assms by simp
  then show ?thesis by (simp add: gamma_frac_def foldl_add_sum)
qed

lemma gamma_flt_upto:
  assumes "J \<le> 1000"
    and "\<forall>j<J. terms_flt ops s z j = Inr (t j) \<and> \<not> f_less ops (f_abs ops (t j)) (\<epsilon>_flt ops)"
    and "J < 1000 \<longrightarrow> terms_flt ops s z J = Inr (t J) \<and> f_less ops (f_abs ops (t J)) (\<epsilon>_flt ops)"
  shows "gamma_flt ops s z = Inr (f_sum ops (map t [0..<J]))"
proof -
  have "take_until (\<lambda>t. f_less ops (f_abs ops t) (\<epsilon>_flt ops)) (map (terms_flt ops s z) [0..<1000]) =
          Inr (map t [0..<J], J = 1000)"
    using take_until_upt [of J 1000 "terms_flt ops s z" t
        "\<lambda>t. f_less ops (f_abs ops t) (\<epsilon>_flt ops)"] assms by simp
  then show ?thesis by (simp add: gamma_flt_def)
qed

lemma py_int_of_int [simp]: "py_int (of_int i) = i"
  by (simp add: py_int_def)

lemma py_int_of_nat [simp]: "py_int (of_nat n) = int n"
  using py_int_of_int [of "int n"] by simp

lemma quotient_of_nat: "quotient_of (of_nat n) = (int n, 1)"
  using quotient_of_int [of "int n"] by simp

lemma terms_frac_nat:
  assumes "0 < m + k"
  shows "terms_frac fp (of_nat m) z k = Inr (series_term m z k)"
proof -
  have "frac_pow fp z (of_nat (m + k)) = Inr (z ^ (m + k))"
    by (simp add: frac_pow_def frac_pow_integral_def quotient_of_nat del: of_nat_add)
  then have a: "frac_pow fp z (of_nat m + of_nat k) = Inr (z ^ (m + k))" by simp
  have b: "(of_nat m + of_nat k :: rat) \<noteq> 0"
    using assms by (metis of_nat_add of_nat_0_eq_iff less_numeral_extra(3))
  have c: "fact_frac (of_nat k) = Inr (fact k)"
    by (simp only: fact_frac_eq py_int_of_nat nat_int)
  have d: "Fraction ((- 1) ^ k) (fact k) = Inr ((- 1) ^ k / fact k)"
    by (simp add: Fraction_def Fract_of_int_quotient)
  show ?thesis
    unfolding terms_frac_def series_term_def using b
    by (simp add: a c d frac_div_def)
qed

lemma gamma_frac_nat:
  assumes "0 < m"
  shows "\<exists>J\<le>100. gamma_frac fp (of_nat m) z =
            Inr (\<Sum>j<J. series_term m z j, if J = 100 then [''More than 100 terms''] else [])
          \<and> (\<forall>j<J. \<not> \<bar>series_term m z j\<bar> < \<epsilon>_frac)
          \<and> (J < 100 \<longrightarrow> \<bar>series_term m z J\<bar> < \<epsilon>_frac)"
proof -
  have all: "\<forall>j<100. terms_frac fp (of_nat m) z j = Inr (series_term m z j)"
    using assms by (simp add: terms_frac_nat)
  from take_until_total [OF all, of "\<lambda>t. \<bar>t\<bar> < \<epsilon>_frac"]
  obtain J where J: "J \<le> 100"
    "take_until (\<lambda>t. \<bar>t\<bar> < \<epsilon>_frac) (map (terms_frac fp (of_nat m) z) [0..<100]) =
       Inr (map (series_term m z) [0..<J], J = 100)"
    "\<forall>j<J. \<not> \<bar>series_term m z j\<bar> < \<epsilon>_frac" "J < 100 \<longrightarrow> \<bar>series_term m z J\<bar> < \<epsilon>_frac"
    by blast
  have "gamma_frac fp (of_nat m) z =
          Inr (\<Sum>j<J. series_term m z j, if J = 100 then [''More than 100 terms''] else [])"
    using J(2) by (simp add: gamma_frac_def foldl_add_sum)
  then show ?thesis using J(1,3,4) by blast
qed

subsection \<open>Magnitudes of the terms\<close>

lemma series_term_Suc:
  assumes "0 < m"
  shows "series_term m z (Suc j) =
         series_term m z j * (- z * of_nat (m + j)) / (of_nat (Suc j) * of_nat (m + Suc j))"
proof -
  have alg: "- s / (B * F) * (z * Z / C) = s / F * (Z / A) * (- z * A) / (B * C)"
    if "A \<noteq> 0" for s B F Z C A :: rat
    using that by (simp add: mult_ac)
  have "(of_nat (m + j) :: rat) \<noteq> 0" using assms by simp
  from alg [OF this, of "(- 1) ^ j" "of_nat (Suc j)" "fact j" "z ^ (m + j)" "of_nat (m + Suc j)"]
  show ?thesis by (simp add: series_term_def del: of_nat_Suc of_nat_add)
qed

lemma series_term_alt:
  "0 \<le> z \<Longrightarrow> series_term m z j = (- 1) ^ j * \<bar>series_term m z j\<bar>"
  by (simp add: series_term_def abs_mult power_abs)

lemma abs_series_term_Suc:
  assumes "0 < m" and "0 \<le> z"
  shows "\<bar>series_term m z (Suc j)\<bar> =
         \<bar>series_term m z j\<bar> * (z * of_nat (m + j) / (of_nat (Suc j) * of_nat (m + Suc j)))"
proof -
  have "\<bar>- z * of_nat (m + j) / (of_nat (Suc j) * of_nat (m + Suc j))\<bar> =
        z * of_nat (m + j) / (of_nat (Suc j) * of_nat (m + Suc j) :: rat)"
    using assms(2) by (simp add: abs_mult del: of_nat_Suc of_nat_add)
  then show ?thesis
    using series_term_Suc [OF assms(1), of z j]
    by (simp add: abs_mult del: of_nat_Suc of_nat_add)
qed

lemma ratio_le_one:
  assumes "0 \<le> z" and "z \<le> of_nat (Suc j)"
  shows "z * of_nat (m + j) / (of_nat (Suc j) * of_nat (m + Suc j)) \<le> (1 :: rat)"
proof -
  have "z * of_nat (m + j) \<le> of_nat (Suc j) * (of_nat (m + j) :: rat)"
    using assms by (intro mult_right_mono) simp_all
  also have "\<dots> \<le> of_nat (Suc j) * (of_nat (m + Suc j) :: rat)"
    by (intro mult_left_mono) simp_all
  finally show ?thesis by (simp add: divide_le_eq del: of_nat_Suc of_nat_add)
qed

lemma ratio_ge_one:
  assumes "0 < m" and "of_nat (Suc (Suc j)) \<le> z"
  shows "(1 :: rat) \<le> z * of_nat (m + j) / (of_nat (Suc j) * of_nat (m + Suc j))"
proof -
  have "Suc j * (m + Suc j) \<le> Suc (Suc j) * (m + j)" using assms(1) by simp
  then have "(of_nat (Suc j * (m + Suc j)) :: rat) \<le> of_nat (Suc (Suc j) * (m + j))"
    by (simp only: of_nat_le_iff)
  then have "of_nat (Suc j) * of_nat (m + Suc j) \<le> of_nat (Suc (Suc j)) * (of_nat (m + j) :: rat)"
    by (simp only: of_nat_mult)
  also have "\<dots> \<le> z * of_nat (m + j)"
    using assms(2) by (intro mult_right_mono) simp_all
  finally show ?thesis by (simp add: le_divide_eq del: of_nat_Suc of_nat_add)
qed

lemma abs_series_term_decreasing:
  assumes "0 < m" and "0 \<le> z" and "z \<le> of_nat (Suc j)" and "j \<le> n"
  shows "\<bar>series_term m z n\<bar> \<le> \<bar>series_term m z j\<bar>"
  using assms(4)
proof (induction n rule: dec_induct)
  case base
  show ?case by simp
next
  case (step n)
  have "(of_nat (Suc j) :: rat) \<le> of_nat (Suc n)" using step.hyps(1) by simp
  then have "z \<le> of_nat (Suc n)" using assms(3) by (rule order_trans [rotated])
  then have "z * of_nat (m + n) / (of_nat (Suc n) * of_nat (m + Suc n)) \<le> (1 :: rat)"
    using assms(2) by (rule ratio_le_one [rotated])
  then have "\<bar>series_term m z (Suc n)\<bar> \<le> \<bar>series_term m z n\<bar>"
    unfolding abs_series_term_Suc [OF assms(1,2)]
    by (intro mult_left_le) simp_all
  then show ?case using step.IH by simp
qed

lemma abs_series_term_increasing:
  assumes "0 < m" and "of_nat (Suc j) \<le> z"
  shows "\<bar>series_term m z 0\<bar> \<le> \<bar>series_term m z j\<bar>"
  using assms(2)
proof (induction j)
  case 0
  show ?case by simp
next
  case (Suc j)
  have z: "0 \<le> z" using Suc.prems by (meson of_nat_0_le_iff order_trans)
  have "(of_nat (Suc j) :: rat) \<le> of_nat (Suc (Suc j))" by simp
  then have "of_nat (Suc j) \<le> z" using Suc.prems by (rule order_trans)
  then have ih: "\<bar>series_term m z 0\<bar> \<le> \<bar>series_term m z j\<bar>" by (rule Suc.IH)
  have "(1 :: rat) \<le> z * of_nat (m + j) / (of_nat (Suc j) * of_nat (m + Suc j))"
    using assms(1) Suc.prems by (rule ratio_ge_one)
  then have "\<bar>series_term m z j\<bar> * 1 \<le> \<bar>series_term m z (Suc j)\<bar>"
    unfolding abs_series_term_Suc [OF assms(1) z]
    by (intro mult_left_mono) simp_all
  then show ?case using ih by simp
qed

text \<open>The magnitudes rise, then fall: between two indices they stay above the smaller end.\<close>

lemma abs_series_term_unimodal:
  assumes "0 < m" and "0 \<le> z" and "j \<le> n"
    and "e \<le> \<bar>series_term m z 0\<bar>" and "e \<le> \<bar>series_term m z n\<bar>"
  shows "e \<le> \<bar>series_term m z j\<bar>"
proof (cases "of_nat (Suc j) \<le> z")
  case True
  then show ?thesis using abs_series_term_increasing [OF assms(1) True] assms(4) by simp
next
  case False
  then have "z \<le> of_nat (Suc j)" by simp
  then show ?thesis using abs_series_term_decreasing [OF assms(1,2) _ assms(3)] assms(5) by simp
qed

lemma gamma_frac_nat_stop:
  assumes "0 < m" and "0 \<le> z" and "J < 100"
    and "\<epsilon>_frac \<le> \<bar>series_term m z 0\<bar>" and "\<epsilon>_frac \<le> \<bar>series_term m z (J - 1)\<bar>"
    and "\<bar>series_term m z J\<bar> < \<epsilon>_frac"
  shows "gamma_frac fp (of_nat m) z = Inr (\<Sum>j<J. series_term m z j, [])"
proof -
  have "\<forall>j<J. terms_frac fp (of_nat m) z j = Inr (series_term m z j)
          \<and> \<not> \<bar>series_term m z j\<bar> < \<epsilon>_frac"
  proof (intro allI impI)
    fix j assume "j < J"
    then have "j \<le> J - 1" by simp
    then have "\<epsilon>_frac \<le> \<bar>series_term m z j\<bar>"
      by (rule abs_series_term_unimodal [OF assms(1,2) _ assms(4,5)])
    then show "terms_frac fp (of_nat m) z j = Inr (series_term m z j)
          \<and> \<not> \<bar>series_term m z j\<bar> < \<epsilon>_frac"
      using assms(1) by (simp add: terms_frac_nat)
  qed
  moreover have "terms_frac fp (of_nat m) z J = Inr (series_term m z J)"
    using assms(1) by (simp add: terms_frac_nat)
  ultimately show ?thesis
    using gamma_frac_upto [of J fp "of_nat m" z "series_term m z"] assms(3,6) by simp
qed

lemma gamma_frac_nat_exhaust:
  assumes "0 < m" and "0 \<le> z"
    and "\<epsilon>_frac \<le> \<bar>series_term m z 0\<bar>" and "\<epsilon>_frac \<le> \<bar>series_term m z 99\<bar>"
  shows "gamma_frac fp (of_nat m) z =
           Inr (\<Sum>j<100. series_term m z j, [''More than 100 terms''])"
proof -
  have "\<forall>j<100. terms_frac fp (of_nat m) z j = Inr (series_term m z j)
          \<and> \<not> \<bar>series_term m z j\<bar> < \<epsilon>_frac"
  proof (intro allI impI)
    fix j :: nat assume "j < 100"
    then have "j \<le> 99" by simp
    then have "\<epsilon>_frac \<le> \<bar>series_term m z j\<bar>"
      by (rule abs_series_term_unimodal [OF assms(1,2) _ assms(3,4)])
    then show "terms_frac fp (of_nat m) z j = Inr (series_term m z j)
          \<and> \<not> \<bar>series_term m z j\<bar> < \<epsilon>_frac"
      using assms(1) by (simp add: terms_frac_nat)
  qed
  then show ?thesis
    using gamma_frac_upto [of 100 fp "of_nat m" z "series_term m z"] by simp
qed

subsection \<open>Partial sums in integers\<close>

lemma int_series_inv:
  assumes "q \<noteq> 0"
  shows "case int_series p q n of (N, D, P) \<Rightarrow>
           D = fact n * q ^ n \<and> P = (- 1) ^ n * p ^ Suc n \<and>
           (of_int N :: rat) = (\<Sum>j<n. series_term 1 (of_int p / of_int q) j) * of_int D"
proof (induction n)
  case 0
  show ?case by simp
next
  case (Suc n)
  obtain N D P where s: "int_series p q n = (N, D, P)" by (cases "int_series p q n") auto
  with Suc have D: "D = fact n * q ^ n" and P: "P = (- 1) ^ n * p ^ Suc n"
    and N: "(of_int N :: rat) = (\<Sum>j<n. series_term 1 (of_int p / of_int q) j) * of_int D"
    by auto
  have q: "(of_int q :: rat) \<noteq> 0" using assms by simp
  have alg: "s / F * (X / (Q * q') / B) * (B * q' * (F * Q)) = s * X"
    if "F \<noteq> 0" "B \<noteq> 0" "q' \<noteq> 0" "Q \<noteq> 0" for s F X Q q' B :: rat
    using that by simp
  have "series_term 1 (of_int p / of_int q) n * (of_nat (Suc n) * of_int q * of_int D) =
          (of_int P :: rat)"
    unfolding series_term_def D P
    using alg [of "fact n" "of_nat (Suc n)" "of_int q" "of_int q ^ n" "(- 1) ^ n" "of_int p ^ Suc n"] q
    by (simp add: power_divide del: of_nat_Suc)
  then have t: "series_term 1 (of_int p / of_int q) n * of_int (int (Suc n) * q * D) = (of_int P :: rat)"
    by (simp del: of_nat_Suc)
  have "(of_int (int (Suc n) * q * N + P) :: rat) =
          of_int (int (Suc n) * q) * of_int N + of_int P" by simp
  also have "\<dots> = of_int (int (Suc n) * q) * ((\<Sum>j<n. series_term 1 (of_int p / of_int q) j) * of_int D)
          + series_term 1 (of_int p / of_int q) n * of_int (int (Suc n) * q * D)"
    by (simp only: N t)
  also have "\<dots> = (\<Sum>j<Suc n. series_term 1 (of_int p / of_int q) j) * of_int (int (Suc n) * q * D)"
    by (simp add: algebra_simps del: of_nat_Suc)
  finally show ?case using s D P
    by (simp del: of_nat_Suc)
qed

lemma int_series_sum_gt:
  assumes "0 < q" and "int_series p q n = (N, D, P)" and "c * D < N"
  shows "of_int c < (\<Sum>j<n. series_term 1 (of_int p / of_int q) j)"
proof -
  from int_series_inv [where q = q and p = p and n = n] assms(1,2)
  have D: "D = fact n * q ^ n"
    and N: "(of_int N :: rat) = (\<Sum>j<n. series_term 1 (of_int p / of_int q) j) * of_int D"
    by auto
  have "0 < D" unfolding D using assms(1) by simp
  then have "(0 :: rat) < of_int D" by simp
  moreover have "(of_int c :: rat) * of_int D < of_int N"
    using assms(3) by (metis of_int_less_iff of_int_mult)
  ultimately show ?thesis unfolding N by (simp only: mult_less_cancel_right_pos)
qed

lemma int_series_sum_less:
  assumes "0 < q" and "int_series p q n = (N, D, P)" and "N < c * D"
  shows "(\<Sum>j<n. series_term 1 (of_int p / of_int q) j) < of_int c"
proof -
  from int_series_inv [where q = q and p = p and n = n] assms(1,2)
  have D: "D = fact n * q ^ n"
    and N: "(of_int N :: rat) = (\<Sum>j<n. series_term 1 (of_int p / of_int q) j) * of_int D"
    by auto
  have "0 < D" unfolding D using assms(1) by simp
  then have "(0 :: rat) < of_int D" by simp
  moreover have "(of_int N :: rat) < of_int c * of_int D"
    using assms(3) by (metis of_int_less_iff of_int_mult)
  ultimately show ?thesis unfolding N by (simp only: mult_less_cancel_right_pos)
qed

subsection \<open>Complete gamma on Fractions\<close>

lemma quotient_of_half: "quotient_of (of_int n + 1 / 2) = (2 * n + 1, 2)"
proof -
  have "(of_int n + 1 / 2 :: rat) = Fract (2 * n + 1) 2"
    by (simp add: Fract_of_int_quotient field_simps)
  moreover have "gcd (2 * n + 1) 2 = 1"
  proof -
    have "coprime (2 * n + 1) 2" by (simp add: coprime_right_2_iff_odd)
    then show ?thesis by (rule coprime_imp_gcd_eq_1)
  qed
  ultimately show ?thesis by (simp add: quotient_of_Fract Rat.normalize_def)
qed

lemma Gamma_Half_frac_integer:
  "Gamma_Half_frac (of_int m) = Inr (of_int (fact (nat (m - 1))))"
proof -
  have "fact_frac (of_int (m - 1)) = Inr (fact (nat (m - 1)))"
    by (simp only: fact_frac_eq py_int_of_int)
  then have "fact_frac (of_int m - 1) = Inr (fact (nat (m - 1)))" by simp
  then show ?thesis by (simp add: Gamma_Half_frac_def quotient_of_int)
qed

lemma Gamma_Half_frac_half:
  assumes "0 \<le> n"
  shows "Gamma_Half_frac (of_int n + 1 / 2) =
           Inr (of_int (fact (nat (2 * n))) / (4 ^ nat n * of_int (fact (nat n))) * sqrt_pi)"
proof -
  have "fact_frac (of_int (2 * n)) = Inr (fact (nat (2 * n)))"
    by (simp only: fact_frac_eq py_int_of_int)
  then have a: "fact_frac (2 * of_int n) = Inr (fact (nat (2 * n)))" by simp
  have b: "fact_frac (of_int n) = Inr (fact (nat n))"
    by (simp only: fact_frac_eq py_int_of_int)
  have c: "frac_pow_integral 4 n = Inr (4 ^ nat n)"
    using assms by (simp add: frac_pow_integral_def)
  have d: "(4 :: rat) ^ nat n * of_int (fact (nat n)) \<noteq> 0" by simp
  show ?thesis
    by (simp add: Gamma_Half_frac_def quotient_of_half quotient_of_int Let_def a b c frac_div_def del: of_int_fact)
qed

lemma Fract_even: "Fract (2 * m) 2 = of_int m"
  by (simp add: Fract_of_int_quotient)

lemma Fract_odd: "Fract (2 * n + 1) 2 = of_int n + 1 / 2"
  by (simp add: Fract_of_int_quotient field_simps)

lemma sqrt_pi_pos: "0 < sqrt_pi"
  by (simp add: sqrt_pi_def)

lemma Gamma_Half_frac_pos:
  assumes "1 \<le> k"
  shows "\<exists>G. Gamma_Half_frac (Fract k 2) = Inr G \<and> 0 < G"
proof (cases "even k")
  case True
  then obtain m where m: "k = 2 * m" by (auto elim: evenE)
  have "(0 :: rat) < of_int (fact (nat (m - 1)))" by (simp del: of_int_fact)
  then show ?thesis unfolding m Fract_even Gamma_Half_frac_integer by blast
next
  case False
  then obtain n where n: "k = 2 * n + 1" by (auto elim: oddE)
  then have n0: "0 \<le> n" using assms by simp
  have "(0 :: rat) < of_int (fact (nat (2 * n))) / (4 ^ nat n * of_int (fact (nat n))) * sqrt_pi"
    using sqrt_pi_pos by (simp del: of_int_fact)
  then show ?thesis unfolding n Fract_odd Gamma_Half_frac_half [OF n0] by blast
qed

lemma cdf_frac_eq:
  assumes "Gamma_Half_frac (Fract k 2) = Inr G" and "G \<noteq> 0"
  shows "cdf_frac fp x k =
           and_then (gamma_frac fp (Fract k 2) (x / 2)) (\<lambda>(g, warned). Inr (1 - g / G, warned))"
proof (cases "gamma_frac fp (Fract k 2) (x / 2)")
  case (Inl e)
  then show ?thesis by (simp add: cdf_frac_def)
next
  case (Inr r)
  then show ?thesis using assms by (cases r) (simp add: cdf_frac_def frac_div_def)
qed

subsection \<open>Numerical facts\<close>

lemma term_1_40_first: "\<epsilon>_frac \<le> \<bar>series_term 1 40 0\<bar>"
  by (simp add: series_term_def \<epsilon>_frac_def)

lemma term_1_40_99: "\<epsilon>_frac \<le> \<bar>series_term 1 40 99\<bar>"
  by (simp add: series_term_def \<epsilon>_frac_def fact_numeral)

lemma term_1_40_121: "\<epsilon>_frac \<le> \<bar>series_term 1 40 121\<bar>"
  by (simp add: series_term_def \<epsilon>_frac_def fact_numeral)

lemma term_1_40_122: "\<bar>series_term 1 40 122\<bar> < \<epsilon>_frac"
  by (simp add: series_term_def \<epsilon>_frac_def fact_numeral)

subsection \<open>The float module in exact real arithmetic\<close>

lemma real_pow_nat: "real_pow z (of_nat n) = Inr (z ^ n)"
  by (simp add: real_pow_def)

lemma terms_flt_real:
  assumes "0 < m + k"
  shows "terms_flt real_ops (of_nat m) (of_rat z) k = Inr (of_rat (series_term m z k))"
proof -
  have a: "fact_flt (int k) = Inr (fact k)" by (simp only: fact_flt_eq nat_int)
  have b: "real_pow (of_rat z) (real m + real k) = Inr (of_rat z ^ (m + k))"
    using real_pow_nat [of "of_rat z" "m + k"] by simp
  have c: "(real m + real k) \<noteq> 0"
    using assms by (metis of_nat_add of_nat_0_eq_iff less_numeral_extra(3))
  have d: "(of_rat (fact k) :: real) = fact k"
    by (metis of_nat_fact of_rat_of_nat_eq)
  show ?thesis
    unfolding terms_flt_def series_term_def using c
    by (simp add: a b d real_ops_def of_rat_mult of_rat_divide of_rat_power of_rat_minus
        of_rat_add)
qed

lemma below_real: "f_less real_ops (f_abs real_ops (of_rat t)) (\<epsilon>_flt real_ops) \<longleftrightarrow> \<bar>t\<bar> < 1 / 10 ^ 8"
proof -
  have "\<bar>(of_rat t :: real)\<bar> = of_rat \<bar>t\<bar>" by (simp add: abs_if of_rat_minus)
  then show ?thesis by (simp add: real_ops_def \<epsilon>_flt_def of_rat_less)
qed

subsection \<open>More numerical facts\<close>

lemma term_1_half_first: "\<epsilon>_frac \<le> \<bar>series_term 1 (1 / 2) 0\<bar> \<and> 1 / 10 ^ 8 \<le> \<bar>series_term 1 (1 / 2) 0\<bar>"
  by (simp add: series_term_def \<epsilon>_frac_def)

lemma term_1_half_7: "\<epsilon>_frac \<le> \<bar>series_term 1 (1 / 2) 7\<bar> \<and> 1 / 10 ^ 8 \<le> \<bar>series_term 1 (1 / 2) 7\<bar>"
  by (simp add: series_term_def \<epsilon>_frac_def fact_numeral power_divide)

lemma term_1_half_8: "\<bar>series_term 1 (1 / 2) 8\<bar> < \<epsilon>_frac \<and> \<bar>series_term 1 (1 / 2) 8\<bar> < 1 / 10 ^ 8"
  by (simp add: series_term_def \<epsilon>_frac_def fact_numeral power_divide)

lemma sum_1_40_100: "case int_series 40 1 100 of (N, D, P) \<Rightarrow> N < 0 * D"
  by (simp add: eval_nat_numeral)

lemma sum_1_40_122: "case int_series 40 1 122 of (N, D, P) \<Rightarrow> 0 * D < N"
  by (simp add: eval_nat_numeral)

lemma sum_1_40_differ: "(\<Sum>j<100. series_term 1 40 j) \<noteq> (\<Sum>j<122. series_term 1 40 j)"
proof -
  obtain N D P where a: "int_series 40 1 100 = (N, D, P)" by (cases "int_series 40 1 100") auto
  then have "N < 0 * D" using sum_1_40_100 by simp
  from int_series_sum_less [OF _ a this] have lo: "(\<Sum>j<100. series_term 1 40 j) < 0" by simp
  obtain N' D' P' where b: "int_series 40 1 122 = (N', D', P')" by (cases "int_series 40 1 122") auto
  then have "0 * D' < N'" using sum_1_40_122 by simp
  from int_series_sum_gt [OF _ b this] have "0 < (\<Sum>j<122. series_term 1 40 j)" by simp
  then show ?thesis using lo by simp
qed

subsection \<open>Evaluations at \<open>s = 1\<close>, \<open>z = 1/2\<close>\<close>

lemma terms_1_half_frac:
  "\<forall>j<8. terms_frac fp 1 (1 / 2) j = Inr (series_term 1 (1 / 2) j)
          \<and> \<not> \<bar>series_term 1 (1 / 2) j\<bar> < \<epsilon>_frac"
proof (intro allI impI)
  fix j :: nat assume "j < 8"
  then have "j \<le> 7" by simp
  then have "\<epsilon>_frac \<le> \<bar>series_term 1 (1 / 2) j\<bar>"
    using abs_series_term_unimodal [of 1 "1 / 2" j 7 \<epsilon>_frac] term_1_half_first term_1_half_7
    by simp
  then show "terms_frac fp 1 (1 / 2) j = Inr (series_term 1 (1 / 2) j)
          \<and> \<not> \<bar>series_term 1 (1 / 2) j\<bar> < \<epsilon>_frac"
    using terms_frac_nat [of 1 j fp "1 / 2"] by simp
qed

lemma terms_1_half_real:
  "\<forall>j<8. terms_flt real_ops 1 (1 / 2) j = Inr (of_rat (series_term 1 (1 / 2) j))
          \<and> \<not> f_less real_ops (f_abs real_ops (of_rat (series_term 1 (1 / 2) j))) (\<epsilon>_flt real_ops)"
proof (intro allI impI)
  fix j :: nat assume "j < 8"
  then have "j \<le> 7" by simp
  then have "1 / 10 ^ 8 \<le> \<bar>series_term 1 (1 / 2) j\<bar>"
    using abs_series_term_unimodal [of 1 "1 / 2" j 7 "1 / 10 ^ 8"] term_1_half_first term_1_half_7
    by simp
  then show "terms_flt real_ops 1 (1 / 2) j = Inr (of_rat (series_term 1 (1 / 2) j))
          \<and> \<not> f_less real_ops (f_abs real_ops (of_rat (series_term 1 (1 / 2) j))) (\<epsilon>_flt real_ops)"
    using terms_flt_real [of 1 j "1 / 2"] by (simp add: below_real of_rat_divide)
qed

subsection \<open>Length of what the pipeline returns\<close>

lemma take_until_length:
  "take_until P xs = Inr (vs, exhausted) \<Longrightarrow>
     length vs \<le> length xs \<and> (exhausted \<longleftrightarrow> length vs = length xs) \<and> \<not> (\<exists>v \<in> set vs. P v)"
proof (induction xs arbitrary: vs exhausted)
  case Nil
  then show ?case by simp
next
  case (Cons x xs)
  show ?case
  proof (cases x)
    case (Inl e)
    then show ?thesis using Cons.prems by simp
  next
    case (Inr v)
    show ?thesis
    proof (cases "P v")
      case True
      then show ?thesis using Cons.prems Inr by auto
    next
      case False
      then obtain ws e where r: "take_until P xs = Inr (ws, e)" and vs: "vs = v # ws" "exhausted = e"
        using Cons.prems Inr by (cases "take_until P xs") (auto split: prod.splits)
      from Cons.IH [OF r] show ?thesis using vs False by auto
    qed
  qed
qed

lemma term_8_half_frac: "terms_frac fp 1 (1 / 2) 8 = Inr (series_term 1 (1 / 2) 8)"
  using terms_frac_nat [of 1 8 fp "1 / 2"] by simp

lemma term_8_half_real:
  "terms_flt real_ops 1 (1 / 2) 8 = Inr (of_rat (series_term 1 (1 / 2) 8))
   \<and> f_less real_ops (f_abs real_ops (of_rat (series_term 1 (1 / 2) 8))) (\<epsilon>_flt real_ops)"
  using terms_flt_real [of 1 8 "1 / 2"] term_1_half_8 by (simp add: of_rat_divide below_real)

lemma gamma_frac_1_half:
  "gamma_frac fp 1 (1 / 2) = Inr (\<Sum>j<8. series_term 1 (1 / 2) j, [])"
  using gamma_frac_upto [of 8 fp 1 "1 / 2" "series_term 1 (1 / 2)"]
    terms_1_half_frac [of fp] term_8_half_frac [of fp] term_1_half_8
  by simp

lemma gamma_flt_1_half:
  "gamma_flt real_ops 1 (1 / 2) =
     Inr (f_sum real_ops (map (\<lambda>j. of_rat (series_term 1 (1 / 2) j)) [0..<8]))"
  using gamma_flt_upto [of 8 real_ops 1 "1 / 2" "\<lambda>j. of_rat (series_term 1 (1 / 2) j)"]
    terms_1_half_real term_8_half_real
  by simp

subsection \<open>Numerical facts at \<open>s = 2\<close>, \<open>z = 45\<close>\<close>

lemma term_2_45_first: "\<epsilon>_frac \<le> \<bar>series_term 2 45 0\<bar>"
  by (simp add: series_term_def \<epsilon>_frac_def)

lemma term_2_45_99: "\<epsilon>_frac \<le> \<bar>series_term 2 45 99\<bar>"
  by (simp add: series_term_def \<epsilon>_frac_def fact_numeral)

lemma term_2_45_100: "\<epsilon>_frac \<le> \<bar>series_term 2 45 100\<bar>"
  by (simp add: series_term_def \<epsilon>_frac_def fact_numeral)

lemma terms_1_40_all:
  "\<forall>j<100. terms_frac fp 1 40 j = Inr (series_term 1 40 j) \<and> \<not> \<bar>series_term 1 40 j\<bar> < \<epsilon>_frac"
proof (intro allI impI)
  fix j :: nat assume "j < 100"
  then have "j \<le> 99" by simp
  then have "\<epsilon>_frac \<le> \<bar>series_term 1 40 j\<bar>"
    using abs_series_term_unimodal [of 1 40 j 99 \<epsilon>_frac] term_1_40_first term_1_40_99 by simp
  then show "terms_frac fp 1 40 j = Inr (series_term 1 40 j) \<and> \<not> \<bar>series_term 1 40 j\<bar> < \<epsilon>_frac"
    using terms_frac_nat [of 1 j fp 40] by simp
qed

subsection \<open>The hybrid selector of the float module\<close>

lemma Gamma_Half_flt_half:
  assumes "f_int ops x = Inr ix"
    and "f_less ops (f_abs ops (f_sub ops (f_sub ops x (f_of_int ops ix)) (f_const ops (1 / 2))))
           (f_const ops (1 / 10 ^ 6))"
    and "f_int ops (f_sub ops x (f_const ops (1 / 2))) = Inr n" and "0 \<le> n"
  shows "Gamma_Half_flt ops x =
           and_then (int_truediv ops (fact (nat (2 * n))) (4 ^ nat n * fact (nat n))) (\<lambda>q.
           and_then (f_sqrt ops (f_pi ops)) (\<lambda>r. Inr (f_mul ops q r)))"
  using assms by (simp add: Gamma_Half_flt_def fact_flt_eq del: of_nat_fact)

lemma Gamma_Half_flt_other:
  assumes "f_int ops x = Inr ix"
    and "\<not> f_less ops (f_abs ops (f_sub ops (f_sub ops x (f_of_int ops ix)) (f_const ops (1 / 2))))
           (f_const ops (1 / 10 ^ 6))"
  shows "Gamma_Half_flt ops x = Gamma2 ops x"
  using assms by (simp add: Gamma_Half_flt_def)

lemma floor_int_plus_half: "\<lfloor>of_int n + 1 / 2 :: real\<rfloor> = n"
  by linarith

lemma Gamma2_real_1: "Gamma2 real_ops 1 = Inr (sqrt (2 * pi) * (129 / 119 / exp 1))"
  by (simp add: Gamma2_def real_ops_def real_pow_def)

lemma Gamma_Half_flt_real_1: "Gamma_Half_flt real_ops 1 = Inr (sqrt (2 * pi) * (129 / 119 / exp 1))"
proof -
  have a: "f_int real_ops 1 = Inr 1" by (simp add: real_ops_def)
  have b: "\<not> f_less real_ops
             (f_abs real_ops (f_sub real_ops (f_sub real_ops 1 (f_of_int real_ops 1))
                (f_const real_ops (1 / 2))))
             (f_const real_ops (1 / 10 ^ 6))"
    by (simp add: real_ops_def of_rat_divide)
  show ?thesis unfolding Gamma_Half_flt_other [OF a b] by (rule Gamma2_real_1)
qed

subsection \<open>The cumulative distribution function\<close>

lemma cdf_flt_eq:
  assumes "int_truediv ops k 2 = Inr s" and "f_truediv ops y (f_of_int ops 2) = Inr z"
    and "gamma_flt ops s z = Inr g" and "Gamma_Half_flt ops s = Inr G"
    and "f_truediv ops g G = Inr q"
  shows "cdf_flt ops y k = Inr (f_sub ops (f_of_int ops 1) q)"
  using assms by (simp add: cdf_flt_def)

lemma cdf_frac_even:
  assumes "0 < m"
  shows "\<exists>J\<le>100. cdf_frac fp x (2 * int m) =
           Inr (1 - (\<Sum>j<J. series_term m (x / 2) j) / fact (m - 1),
                if J = 100 then [''More than 100 terms''] else [])
         \<and> (\<forall>j<J. \<not> \<bar>series_term m (x / 2) j\<bar> < \<epsilon>_frac)
         \<and> (J < 100 \<longrightarrow> \<bar>series_term m (x / 2) J\<bar> < \<epsilon>_frac)"
proof -
  have s: "Fract (2 * int m) 2 = of_nat m" using Fract_even [of "int m"] by simp
  have "nat (int m - 1) = m - 1" by simp
  then have G: "Gamma_Half_frac (Fract (2 * int m) 2) = Inr (fact (m - 1))"
    unfolding s using Gamma_Half_frac_integer [of "int m"] by simp
  have nz: "(fact (m - 1) :: rat) \<noteq> 0" by simp
  from gamma_frac_nat [OF assms, of fp "x / 2"] obtain J where J: "J \<le> 100"
    "gamma_frac fp (of_nat m) (x / 2) =
       Inr (\<Sum>j<J. series_term m (x / 2) j, if J = 100 then [''More than 100 terms''] else [])"
    "\<forall>j<J. \<not> \<bar>series_term m (x / 2) j\<bar> < \<epsilon>_frac"
    "J < 100 \<longrightarrow> \<bar>series_term m (x / 2) J\<bar> < \<epsilon>_frac"
    by blast
  have "cdf_frac fp x (2 * int m) =
           Inr (1 - (\<Sum>j<J. series_term m (x / 2) j) / fact (m - 1),
                if J = 100 then [''More than 100 terms''] else [])"
    unfolding cdf_frac_eq [OF G nz] s J(2) by simp
  then show ?thesis using J(1,3,4) by blast
qed

subsection \<open>Where the float power enters the Fraction module\<close>

lemma frac_pow_integral_exponent:
  "frac_pow fp z (of_int i + of_nat k) = frac_pow_integral z (i + int k)"
proof -
  have "quotient_of (of_int i + of_nat k) = (i + int k, 1)"
    using quotient_of_int [of "i + int k"] by (simp add: Rat.of_int_def)
  then show ?thesis by (simp add: frac_pow_def)
qed

lemma frac_pow_half_exponent:
  "frac_pow fp z (of_int n + 1 / 2 + of_nat k) = fp z (of_int n + 1 / 2 + of_nat k)"
proof -
  have eq: "(of_int n + 1 / 2 + of_nat k :: rat) = of_int (n + int k) + 1 / 2" by simp
  show ?thesis unfolding frac_pow_def eq quotient_of_half by simp
qed

lemma and_then_eq_Inr: "and_then r f = Inr v \<longleftrightarrow> (\<exists>u. r = Inr u \<and> f u = Inr v)"
  by (cases r) simp_all

subsection \<open>The pipeline, characterised\<close>

lemma ex_le_exI: "J \<le> n \<Longrightarrow> Q J t \<Longrightarrow> \<exists>J\<le>n. \<exists>t. Q J t"
  by blast

lemma take_until_upt_iff:
  "take_until P (map f [0..<n]) = Inr (vs, e) \<longleftrightarrow>
     (\<exists>J\<le>n. \<exists>t. (\<forall>j<J. f j = Inr (t j) \<and> \<not> P (t j))
        \<and> (J < n \<longrightarrow> f J = Inr (t J) \<and> P (t J))
        \<and> vs = map t [0..<J] \<and> e = (J = n))"
proof
  assume r: "take_until P (map f [0..<n]) = Inr (vs, e)"
  define t where "t = (\<lambda>j. projr (f j))"
  define good where "good = (\<lambda>j. \<exists>v. f j = Inr v \<and> \<not> P v)"
  have good_t: "f j = Inr (t j) \<and> \<not> P (t j)" if "good j" for j
    using that unfolding good_def t_def by auto
  show "\<exists>J\<le>n. \<exists>t. (\<forall>j<J. f j = Inr (t j) \<and> \<not> P (t j))
        \<and> (J < n \<longrightarrow> f J = Inr (t J) \<and> P (t J))
        \<and> vs = map t [0..<J] \<and> e = (J = n)"
  proof (cases "\<exists>j<n. \<not> good j")
    case False
    then have all: "\<forall>j<n. f j = Inr (t j) \<and> \<not> P (t j)" using good_t by blast
    from take_until_upt [of n n f t P] all
    have "take_until P (map f [0..<n]) = Inr (map t [0..<n], True)" by simp
    with r have "vs = map t [0..<n]" "e = (n = n)" by simp_all
    with all show ?thesis by (intro ex_le_exI [where J = n and t = t]) simp_all
  next
    case True
    define J where "J = (LEAST j. j < n \<and> \<not> good j)"
    from True have J: "J < n \<and> \<not> good J"
      unfolding J_def by (metis (mono_tags, lifting) LeastI)
    have pre: "\<forall>j<J. f j = Inr (t j) \<and> \<not> P (t j)"
    proof (intro allI impI)
      fix j assume "j < J"
      then have "\<not> (j < n \<and> \<not> good j)" unfolding J_def by (rule not_less_Least)
      moreover have "j < n" using \<open>j < J\<close> J by simp
      ultimately have "good j" by simp
      then show "f j = Inr (t j) \<and> \<not> P (t j)" by (rule good_t)
    qed
    show ?thesis
    proof (cases "f J")
      case (Inl err)
      from take_until_raise [of J n f t P err] J pre Inl
      have "take_until P (map f [0..<n]) = Inl err" by simp
      with r show ?thesis by simp
    next
      case (Inr v)
      then have Pv: "P v" using J unfolding good_def by simp
      have fJ: "f J = Inr (t J)" using Inr unfolding t_def by simp
      then have PJ: "P (t J)" using Pv Inr by simp
      from take_until_stop [of J n f t P] J pre fJ PJ
      have "take_until P (map f [0..<n]) = Inr (map t [0..<J], False)" by simp
      with r have "vs = map t [0..<J]" "e = False" by simp_all
      with J pre fJ PJ show ?thesis by (intro ex_le_exI [where J = J and t = t]) simp_all
    qed
  qed
next
  assume "\<exists>J\<le>n. \<exists>t. (\<forall>j<J. f j = Inr (t j) \<and> \<not> P (t j))
        \<and> (J < n \<longrightarrow> f J = Inr (t J) \<and> P (t J))
        \<and> vs = map t [0..<J] \<and> e = (J = n)"
  then obtain J t where "J \<le> n" "\<forall>j<J. f j = Inr (t j) \<and> \<not> P (t j)"
    "J < n \<longrightarrow> f J = Inr (t J) \<and> P (t J)" "vs = map t [0..<J]" "e = (J = n)"
    by blast
  then show "take_until P (map f [0..<n]) = Inr (vs, e)"
    using take_until_upt [of J n f t P] by simp
qed

lemma gamma_frac_iff:
  "gamma_frac fp s z = Inr (g, w) \<longleftrightarrow>
     (\<exists>J\<le>100. \<exists>t. (\<forall>j<J. terms_frac fp s z j = Inr (t j) \<and> \<not> \<bar>t j\<bar> < \<epsilon>_frac)
        \<and> (J < 100 \<longrightarrow> terms_frac fp s z J = Inr (t J) \<and> \<bar>t J\<bar> < \<epsilon>_frac)
        \<and> g = (\<Sum>j<J. t j)
        \<and> w = (if J = 100 then [''More than 100 terms''] else []))"
proof
  assume a: "gamma_frac fp s z = Inr (g, w)"
  then obtain vs e where
    r: "take_until (\<lambda>t. \<bar>t\<bar> < \<epsilon>_frac) (map (terms_frac fp s z) [0..<100]) = Inr (vs, e)"
    and g: "g = foldl (+) 0 vs" and w: "w = (if e then [''More than 100 terms''] else [])"
    unfolding gamma_frac_def and_then_eq_Inr by auto
  from r [unfolded take_until_upt_iff] obtain J t where J: "J \<le> 100"
    "\<forall>j<J. terms_frac fp s z j = Inr (t j) \<and> \<not> \<bar>t j\<bar> < \<epsilon>_frac"
    "J < 100 \<longrightarrow> terms_frac fp s z J = Inr (t J) \<and> \<bar>t J\<bar> < \<epsilon>_frac"
    "vs = map t [0..<J]" "e = (J = 100)"
    by blast
  have "g = (\<Sum>j<J. t j)" unfolding g J(4) by (simp add: foldl_add_sum)
  moreover have "w = (if J = 100 then [''More than 100 terms''] else [])" unfolding w J(5) ..
  ultimately show "\<exists>J\<le>100. \<exists>t. (\<forall>j<J. terms_frac fp s z j = Inr (t j) \<and> \<not> \<bar>t j\<bar> < \<epsilon>_frac)
        \<and> (J < 100 \<longrightarrow> terms_frac fp s z J = Inr (t J) \<and> \<bar>t J\<bar> < \<epsilon>_frac)
        \<and> g = (\<Sum>j<J. t j)
        \<and> w = (if J = 100 then [''More than 100 terms''] else [])"
    using J(1,2,3) by blast
next
  assume "\<exists>J\<le>100. \<exists>t. (\<forall>j<J. terms_frac fp s z j = Inr (t j) \<and> \<not> \<bar>t j\<bar> < \<epsilon>_frac)
        \<and> (J < 100 \<longrightarrow> terms_frac fp s z J = Inr (t J) \<and> \<bar>t J\<bar> < \<epsilon>_frac)
        \<and> g = (\<Sum>j<J. t j)
        \<and> w = (if J = 100 then [''More than 100 terms''] else [])"
  then obtain J t where "J \<le> 100"
    "\<forall>j<J. terms_frac fp s z j = Inr (t j) \<and> \<not> \<bar>t j\<bar> < \<epsilon>_frac"
    "J < 100 \<longrightarrow> terms_frac fp s z J = Inr (t J) \<and> \<bar>t J\<bar> < \<epsilon>_frac"
    "g = (\<Sum>j<J. t j)" "w = (if J = 100 then [''More than 100 terms''] else [])"
    by blast
  then show "gamma_frac fp s z = Inr (g, w)"
    using gamma_frac_upto [of J fp s z t] by simp
qed

lemma gamma_frac_warning_iff:
  assumes "gamma_frac fp s z = Inr (g, w)"
  shows "(w = [''More than 100 terms''] \<longleftrightarrow>
           (\<forall>j<100. \<exists>t. terms_frac fp s z j = Inr t \<and> \<not> \<bar>t\<bar> < \<epsilon>_frac))
         \<and> (w = [] \<longleftrightarrow> \<not> (\<forall>j<100. \<exists>t. terms_frac fp s z j = Inr t \<and> \<not> \<bar>t\<bar> < \<epsilon>_frac))"
proof -
  from assms [unfolded gamma_frac_iff] obtain J t where J: "J \<le> 100"
    "\<forall>j<J. terms_frac fp s z j = Inr (t j) \<and> \<not> \<bar>t j\<bar> < \<epsilon>_frac"
    "J < 100 \<longrightarrow> terms_frac fp s z J = Inr (t J) \<and> \<bar>t J\<bar> < \<epsilon>_frac"
    "w = (if J = 100 then [''More than 100 terms''] else [])"
    by blast
  show ?thesis
  proof (cases "J = 100")
    case True
    then have "\<forall>j<100. \<exists>t. terms_frac fp s z j = Inr t \<and> \<not> \<bar>t\<bar> < \<epsilon>_frac"
      using J(2) by blast
    then show ?thesis using J(4) True by simp
  next
    case False
    then have "J < 100" using J(1) by simp
    then have "terms_frac fp s z J = Inr (t J) \<and> \<bar>t J\<bar> < \<epsilon>_frac" using J(3) by simp
    then have "\<not> (\<exists>u. terms_frac fp s z J = Inr u \<and> \<not> \<bar>u\<bar> < \<epsilon>_frac)" by auto
    then have "\<not> (\<forall>j<100. \<exists>t. terms_frac fp s z j = Inr t \<and> \<not> \<bar>t\<bar> < \<epsilon>_frac)"
      using \<open>J < 100\<close> by blast
    then show ?thesis using J(4) False by simp
  qed
qed

lemma gamma_flt_iff:
  "gamma_flt ops a b = Inr h \<longleftrightarrow>
     (\<exists>K\<le>1000. \<exists>u. (\<forall>j<K. terms_flt ops a b j = Inr (u j)
                         \<and> \<not> f_less ops (f_abs ops (u j)) (\<epsilon>_flt ops))
        \<and> (K < 1000 \<longrightarrow> terms_flt ops a b K = Inr (u K)
                         \<and> f_less ops (f_abs ops (u K)) (\<epsilon>_flt ops))
        \<and> h = f_sum ops (map u [0..<K]))"
proof
  assume "gamma_flt ops a b = Inr h"
  then obtain vs e where
    r: "take_until (\<lambda>t. f_less ops (f_abs ops t) (\<epsilon>_flt ops)) (map (terms_flt ops a b) [0..<1000])
          = Inr (vs, e)"
    and h: "h = f_sum ops vs"
    unfolding gamma_flt_def and_then_eq_Inr by auto
  from r [unfolded take_until_upt_iff] obtain K u where K: "K \<le> 1000"
    "\<forall>j<K. terms_flt ops a b j = Inr (u j) \<and> \<not> f_less ops (f_abs ops (u j)) (\<epsilon>_flt ops)"
    "K < 1000 \<longrightarrow> terms_flt ops a b K = Inr (u K) \<and> f_less ops (f_abs ops (u K)) (\<epsilon>_flt ops)"
    "vs = map u [0..<K]"
    by blast
  then show "\<exists>K\<le>1000. \<exists>u. (\<forall>j<K. terms_flt ops a b j = Inr (u j)
                         \<and> \<not> f_less ops (f_abs ops (u j)) (\<epsilon>_flt ops))
        \<and> (K < 1000 \<longrightarrow> terms_flt ops a b K = Inr (u K)
                         \<and> f_less ops (f_abs ops (u K)) (\<epsilon>_flt ops))
        \<and> h = f_sum ops (map u [0..<K])"
    using h by blast
next
  assume "\<exists>K\<le>1000. \<exists>u. (\<forall>j<K. terms_flt ops a b j = Inr (u j)
                         \<and> \<not> f_less ops (f_abs ops (u j)) (\<epsilon>_flt ops))
        \<and> (K < 1000 \<longrightarrow> terms_flt ops a b K = Inr (u K)
                         \<and> f_less ops (f_abs ops (u K)) (\<epsilon>_flt ops))
        \<and> h = f_sum ops (map u [0..<K])"
  then obtain K u where "K \<le> 1000"
    "\<forall>j<K. terms_flt ops a b j = Inr (u j) \<and> \<not> f_less ops (f_abs ops (u j)) (\<epsilon>_flt ops)"
    "K < 1000 \<longrightarrow> terms_flt ops a b K = Inr (u K) \<and> f_less ops (f_abs ops (u K)) (\<epsilon>_flt ops)"
    "h = f_sum ops (map u [0..<K])"
    by blast
  then show "gamma_flt ops a b = Inr h"
    using gamma_flt_upto [of K ops a b u] by simp
qed

subsection \<open>The terms, written out\<close>

lemma terms_frac_half:
  "terms_frac fp (of_int n + 1 / 2) z j =
     and_then (fp z (of_int n + 1 / 2 + of_nat j))
       (\<lambda>p. Inr ((- 1) ^ j / fact j * (p / (of_int n + 1 / 2 + of_nat j))))"
proof -
  have "(2 * (of_int n + 1 / 2 + of_nat j) :: rat) = of_int (2 * (n + int j) + 1)" by simp
  moreover have "(of_int (2 * (n + int j) + 1) :: rat) \<noteq> 0"
    by (simp only: of_int_eq_0_iff) presburger
  ultimately have nz: "(of_int n + 1 / 2 + of_nat j :: rat) \<noteq> 0" by auto
  have c: "fact_frac (of_nat j) = Inr (fact j)"
    by (simp only: fact_frac_eq py_int_of_nat nat_int)
  have d: "Fraction ((- 1) ^ j) (fact j) = Inr ((- 1) ^ j / fact j)"
    by (simp add: Fraction_def Fract_of_int_quotient)
  show ?thesis
    unfolding terms_frac_def frac_pow_half_exponent
    by (cases "fp z (of_int n + 1 / 2 + of_nat j)") (simp_all add: c d frac_div_def nz)
qed

lemma terms_flt_eq:
  "terms_flt ops a b j =
     and_then (int_truediv ops ((- 1) ^ j) (fact j)) (\<lambda>c.
     and_then (f_pow ops b (f_add ops a (f_of_int ops (int j)))) (\<lambda>p.
     and_then (f_truediv ops p (f_add ops a (f_of_int ops (int j)))) (\<lambda>q.
     Inr (f_mul ops c q))))"
  by (simp add: terms_flt_def fact_flt_eq del: of_nat_fact)

subsection \<open>The Fraction module with representations\<close>

lemma terms_frac_nat_fun:
  "0 < m \<Longrightarrow> terms_frac fp (of_nat m) z = (\<lambda>j. Inr (series_term m z j))"
  by (rule ext) (simp add: terms_frac_nat)

lemma py_sum_upt:
  "py_sum (map t [0..<J]) = (if J = 0 then PyInt 0 else PyFraction (\<Sum>j<J. t j))"
proof (cases J)
  case 0
  then show ?thesis by simp
next
  case (Suc n)
  have "map t [0..<J] \<noteq> []" using Suc by simp
  then obtain v vs where c: "map t [0..<J] = v # vs" by (cases "map t [0..<J]") auto
  have "py_sum (map t [0..<J]) = PyFraction (foldl (+) 0 (map t [0..<J]))"
    unfolding c by simp
  then show ?thesis using Suc by (simp only: foldl_add_sum) simp
qed

lemma gamma_repr_nat:
  assumes "0 < m"
  shows "\<exists>J\<le>100. gamma_repr ops conv (of_nat m) z =
            Inr (if J = 0 then PyInt 0 else PyFraction (\<Sum>j<J. series_term m z j),
                 if J = 100 then [''More than 100 terms''] else [])
          \<and> gamma_frac fp (of_nat m) z =
            Inr (\<Sum>j<J. series_term m z j, if J = 100 then [''More than 100 terms''] else [])
          \<and> (\<forall>j<J. \<not> \<bar>series_term m z j\<bar> < \<epsilon>_frac)
          \<and> (J < 100 \<longrightarrow> \<bar>series_term m z J\<bar> < \<epsilon>_frac)"
proof -
  have all: "\<forall>j<100. (\<lambda>j. Inr (series_term m z j) :: error + rat) j = Inr (series_term m z j)"
    by simp
  from take_until_total [OF all, of "\<lambda>t. \<bar>t\<bar> < \<epsilon>_frac"]
  obtain J where J: "J \<le> 100"
    "take_until (\<lambda>t. \<bar>t\<bar> < \<epsilon>_frac) (map (\<lambda>j. Inr (series_term m z j)) [0..<100]) =
       Inr (map (series_term m z) [0..<J], J = 100)"
    "\<forall>j<J. \<not> \<bar>series_term m z j\<bar> < \<epsilon>_frac" "J < 100 \<longrightarrow> \<bar>series_term m z J\<bar> < \<epsilon>_frac"
    by blast
  have a: "gamma_repr ops conv (of_nat m) z =
            Inr (if J = 0 then PyInt 0 else PyFraction (\<Sum>j<J. series_term m z j),
                 if J = 100 then [''More than 100 terms''] else [])"
    unfolding gamma_repr_def terms_frac_nat_fun [OF assms] J(2)
    by (simp only: and_then_Inr prod.case py_sum_upt)
  have b: "gamma_frac fp (of_nat m) z =
            Inr (\<Sum>j<J. series_term m z j, if J = 100 then [''More than 100 terms''] else [])"
    unfolding gamma_frac_def terms_frac_nat_fun [OF assms] J(2)
    by (simp add: foldl_add_sum)
  show ?thesis using J(1,3,4) a b by blast
qed

lemma Gamma_Half_repr_integer:
  "Gamma_Half_repr (of_int i) = Inr (PyInt (fact (nat (i - 1))))"
proof -
  have "fact_frac (of_int (i - 1)) = Inr (fact (nat (i - 1)))"
    by (simp only: fact_frac_eq py_int_of_int)
  then have "fact_frac (of_int i - 1) = Inr (fact (nat (i - 1)))" by simp
  then show ?thesis by (simp add: Gamma_Half_repr_def quotient_of_int)
qed

lemma cdf_repr_Fraction:
  "cdf_repr ops conv (PyFraction x) k =
     and_then (gamma_repr ops conv (Fract k 2) (x / 2)) (\<lambda>(g, warned).
     and_then (Gamma_Half_repr (Fract k 2)) (\<lambda>G.
     and_then (truediv ops conv g G) (\<lambda>q.
     Inr (one_minus ops q, warned))))"
  by (simp add: cdf_repr_def frac_div_def)

lemma cdf_repr_float:
  "cdf_repr ops conv (PyFloat y) k =
     and_then (f_truediv ops y (f_of_int ops 2)) (\<lambda>h.
     and_then (Fraction_of_float conv h) (\<lambda>z.
     cdf_repr ops conv (PyFraction (2 * z)) k))"
proof (cases "f_truediv ops y (f_of_int ops 2)")
  case (Inl e)
  then show ?thesis by (simp add: cdf_repr_def)
next
  case (Inr h)
  show ?thesis
  proof (cases "Fraction_of_float conv h")
    case (Inl e)
    then show ?thesis using Inr by (simp add: cdf_repr_def)
  next
    case z: (Inr z)
    show ?thesis unfolding cdf_repr_Fraction using Inr z by (simp add: cdf_repr_def)
  qed
qed

lemma cdf_repr_int:
  "cdf_repr ops conv (PyInt i) k =
     and_then (int_truediv ops i 2) (\<lambda>h.
     and_then (Fraction_of_float conv h) (\<lambda>z.
     cdf_repr ops conv (PyFraction (2 * z)) k))"
proof (cases "int_truediv ops i 2")
  case (Inl e)
  then show ?thesis by (simp add: cdf_repr_def)
next
  case (Inr h)
  show ?thesis
  proof (cases "Fraction_of_float conv h")
    case (Inl e)
    then show ?thesis using Inr by (simp add: cdf_repr_def)
  next
    case z: (Inr z)
    show ?thesis unfolding cdf_repr_Fraction using Inr z by (simp add: cdf_repr_def)
  qed
qed

lemma cdf_repr_even:
  assumes "0 < m"
  shows "\<exists>J\<le>100.
           (J = 0 \<longleftrightarrow> \<bar>series_term m (x / 2) 0\<bar> < \<epsilon>_frac)
         \<and> (J = 0 \<longrightarrow> cdf_repr ops conv (PyFraction x) (2 * int m) =
              and_then (int_truediv ops 0 (fact (m - 1)))
                (\<lambda>f. Inr (PyFloat (f_sub ops (f_of_int ops 1) f), [])))
         \<and> (0 < J \<longrightarrow> cdf_repr ops conv (PyFraction x) (2 * int m) =
              Inr (PyFraction (1 - (\<Sum>j<J. series_term m (x / 2) j) / fact (m - 1)),
                   if J = 100 then [''More than 100 terms''] else []))
         \<and> cdf_frac fp x (2 * int m) =
              Inr (1 - (\<Sum>j<J. series_term m (x / 2) j) / fact (m - 1),
                   if J = 100 then [''More than 100 terms''] else [])"
proof -
  have s: "Fract (2 * int m) 2 = of_nat m" using Fract_even [of "int m"] by simp
  have nm: "nat (int m - 1) = m - 1" by simp
  have G: "Gamma_Half_repr (Fract (2 * int m) 2) = (Inr (PyInt (fact (m - 1))) :: error + 'a number)"
    unfolding s using Gamma_Half_repr_integer [of "int m"] nm by simp
  have G': "Gamma_Half_frac (Fract (2 * int m) 2) = Inr (fact (m - 1))"
    unfolding s using Gamma_Half_frac_integer [of "int m"] nm by simp
  have nz: "(fact (m - 1) :: rat) \<noteq> 0" by simp
  from gamma_repr_nat [OF assms, of ops conv "x / 2" fp] obtain J where J: "J \<le> 100"
    "gamma_repr ops conv (of_nat m) (x / 2) =
            Inr (if J = 0 then PyInt 0 else PyFraction (\<Sum>j<J. series_term m (x / 2) j),
                 if J = 100 then [''More than 100 terms''] else [])"
    "gamma_frac fp (of_nat m) (x / 2) =
            Inr (\<Sum>j<J. series_term m (x / 2) j, if J = 100 then [''More than 100 terms''] else [])"
    "\<forall>j<J. \<not> \<bar>series_term m (x / 2) j\<bar> < \<epsilon>_frac"
    "J < 100 \<longrightarrow> \<bar>series_term m (x / 2) J\<bar> < \<epsilon>_frac"
    by blast
  have c1: "J = 0 \<longleftrightarrow> \<bar>series_term m (x / 2) 0\<bar> < \<epsilon>_frac"
    using J(4,5) by (cases "J = 0") auto
  have c2: "cdf_repr ops conv (PyFraction x) (2 * int m) =
              and_then (int_truediv ops 0 (fact (m - 1)))
                (\<lambda>f. Inr (PyFloat (f_sub ops (f_of_int ops 1) f), []))" if "J = 0"
  proof (cases "int_truediv ops 0 (fact (m - 1))")
    case (Inl e)
    then show ?thesis unfolding cdf_repr_Fraction s J(2) G [unfolded s] using that by simp
  next
    case (Inr f)
    then show ?thesis unfolding cdf_repr_Fraction s J(2) G [unfolded s] using that by simp
  qed
  have c3: "cdf_repr ops conv (PyFraction x) (2 * int m) =
              Inr (PyFraction (1 - (\<Sum>j<J. series_term m (x / 2) j) / fact (m - 1)),
                   if J = 100 then [''More than 100 terms''] else [])" if "0 < J"
    unfolding cdf_repr_Fraction s J(2) G [unfolded s] using that nz
    by (simp add: frac_div_def)
  have c4: "cdf_frac fp x (2 * int m) =
              Inr (1 - (\<Sum>j<J. series_term m (x / 2) j) / fact (m - 1),
                   if J = 100 then [''More than 100 terms''] else [])"
    unfolding cdf_frac_eq [OF G' nz] s J(3) by simp
  show ?thesis using J(1) c1 c2 c3 c4 by blast
qed

lemma gamma_repr_nat_nonempty:
  assumes "0 < m" and "\<not> \<bar>series_term m z 0\<bar> < \<epsilon>_frac"
  shows "\<exists>g w. gamma_repr ops conv (of_nat m) z = Inr (PyFraction g, w)
           \<and> gamma_frac float_pow (of_nat m) z = Inr (g, w)"
proof -
  from gamma_repr_nat [OF assms(1), of ops conv z float_pow] obtain J :: nat where
    J2: "gamma_repr ops conv (of_nat m) z =
            Inr (if J = 0 then PyInt 0 else PyFraction (\<Sum>j<J. series_term m z j),
                 if J = 100 then [''More than 100 terms''] else [])"
    and J3: "gamma_frac float_pow (of_nat m) z =
            Inr (\<Sum>j<J. series_term m z j, if J = 100 then [''More than 100 terms''] else [])"
    and J4: "J < 100 \<longrightarrow> \<bar>series_term m z J\<bar> < \<epsilon>_frac"
    by (elim exE conjE) 
  have "J \<noteq> 0"
  proof
    assume "J = 0"
    with J4 have "\<bar>series_term m z 0\<bar> < \<epsilon>_frac" by simp
    with assms(2) show False by (rule notE)
  qed
  then have a: "gamma_repr ops conv (of_nat m) z =
            Inr (PyFraction (\<Sum>j<J. series_term m z j),
                 if J = 100 then [''More than 100 terms''] else [])"
    unfolding J2 by (simp only: if_False)
  show ?thesis
    by (rule exI [of _ "\<Sum>j<J. series_term m z j"],
        rule exI [of _ "if J = 100 then [''More than 100 terms''] else []"],
        rule conjI [OF a J3])
qed

lemma cdf_repr_even_nonempty:
  assumes "0 < m" and "\<not> \<bar>series_term m (x / 2) 0\<bar> < \<epsilon>_frac"
  shows "\<exists>p w. cdf_repr ops conv (PyFraction x) (2 * int m) = Inr (PyFraction p, w)
           \<and> cdf_frac float_pow x (2 * int m) = Inr (p, w)"
proof -
  from cdf_repr_even [OF assms(1), of x ops conv float_pow] obtain J :: nat where
    J1: "(J = 0) = (\<bar>series_term m (x / 2) 0\<bar> < \<epsilon>_frac)"
    and J2: "0 < J \<longrightarrow> cdf_repr ops conv (PyFraction x) (2 * int m) =
              Inr (PyFraction (1 - (\<Sum>j<J. series_term m (x / 2) j) / fact (m - 1)),
                   if J = 100 then [''More than 100 terms''] else [])"
    and J3: "cdf_frac float_pow x (2 * int m) =
              Inr (1 - (\<Sum>j<J. series_term m (x / 2) j) / fact (m - 1),
                   if J = 100 then [''More than 100 terms''] else [])"
    by (elim exE conjE)
  have "J \<noteq> 0" using J1 assms(2) by simp
  then have "0 < J" by simp
  with J2 have a: "cdf_repr ops conv (PyFraction x) (2 * int m) =
              Inr (PyFraction (1 - (\<Sum>j<J. series_term m (x / 2) j) / fact (m - 1)),
                   if J = 100 then [''More than 100 terms''] else [])"
    by (rule mp)
  show ?thesis
    by (rule exI [of _ "1 - (\<Sum>j<J. series_term m (x / 2) j) / fact (m - 1)"],
        rule exI [of _ "if J = 100 then [''More than 100 terms''] else []"],
        rule conjI [OF a J3])
qed

lemma cdf_repr_even_empty:
  assumes "0 < m" and "\<bar>series_term m (x / 2) 0\<bar> < \<epsilon>_frac"
  shows "cdf_repr ops conv (PyFraction x) (2 * int m) =
              and_then (int_truediv ops 0 (fact (m - 1)))
                (\<lambda>f. Inr (PyFloat (f_sub ops (f_of_int ops 1) f), []))"
proof -
  from cdf_repr_even [OF assms(1), of x ops conv float_pow_trap] obtain J :: nat where
    J1: "(J = 0) = (\<bar>series_term m (x / 2) 0\<bar> < \<epsilon>_frac)"
    and J2: "J = 0 \<longrightarrow> cdf_repr ops conv (PyFraction x) (2 * int m) =
              and_then (int_truediv ops 0 (fact (m - 1)))
                (\<lambda>f. Inr (PyFloat (f_sub ops (f_of_int ops 1) f), []))"
    by (elim exE conjE)
  have "J = 0" using J1 assms(2) by (rule iffD2)
  with J2 show ?thesis by (rule mp)
qed

lemma Fraction_float_pow_first_term:
  "terms_frac (Fraction_float_pow ops conv) (Fract 1 2) (2 / 2) 0 =
         and_then (float_of_Fraction conv 1) (\<lambda>fa.
         and_then (float_of_Fraction conv (1 / 2)) (\<lambda>fb.
         and_then (f_pow ops fa fb) (\<lambda>p.
         and_then (Fraction_of_float conv p) (\<lambda>r. Inr (r / (1 / 2))))))"
proof -
  have s: "Fract 1 2 = (of_int 0 + 1 / 2 :: rat)" by (simp add: Fract_of_int_quotient)
  have "terms_frac (Fraction_float_pow ops conv) (of_int 0 + 1 / 2) 1 0 =
       and_then (Fraction_float_pow ops conv 1 (of_int 0 + 1 / 2 + of_nat 0))
         (\<lambda>p. Inr ((- 1) ^ 0 / fact 0 * (p / (of_int 0 + 1 / 2 + of_nat 0))))"
    by (rule terms_frac_half)
  then have t: "terms_frac (Fraction_float_pow ops conv) (Fract 1 2) (2 / 2) 0 =
       and_then (Fraction_float_pow ops conv 1 (1 / 2)) (\<lambda>p. Inr (p / (1 / 2)))"
    unfolding s by simp
  show ?thesis
  proof (cases "float_of_Fraction conv 1")
    case (Inl e)
    then show ?thesis unfolding t Fraction_float_pow_def by simp
  next
    case fa: (Inr fa)
    show ?thesis
    proof (cases "float_of_Fraction conv (1 / 2)")
      case (Inl e)
      then show ?thesis unfolding t Fraction_float_pow_def using fa by simp
    next
      case fb: (Inr fb)
      show ?thesis
      proof (cases "f_pow ops fa fb")
        case (Inl e)
        then show ?thesis unfolding t Fraction_float_pow_def using fa fb by simp
      next
        case (Inr p)
        then show ?thesis unfolding t Fraction_float_pow_def using fa fb by simp
      qed
    qed
  qed
qed

section \<open>Claims\<close>

text \<open>
  C7 (as amended). The factorial has no domain check: for every integer \<open>n < 2\<close>, and so
  for every negative \<open>n\<close>, it returns 1 and raises nothing, in the float module and in the
  Fraction module alike.
\<close>

theorem fact_below_two_is_one:
  "n < 2 \<Longrightarrow> fact_flt n = Inr 1 \<and> fact_frac (of_int n) = Inr 1"
  by (simp add: fact_flt_def fact_frac_def)

theorem fact_below_two_is_one_witness:
  "(- 3 :: int) < 2 \<and> fact_flt (- 3) = Inr 1 \<and> fact_frac (of_int (- 3)) = Inr 1"
  using fact_below_two_is_one [of "- 3"] by simp

text \<open>
  C7 as stated fails: at \<open>n = -1\<close> both factorials return the value 1 instead of failing.
\<close>

theorem fact_negative_counterexample:
  "fact_flt (- 1) = Inr 1 \<and> fact_frac (- 1) = Inr 1"
  by (simp add: fact_flt_def fact_frac_def)

text \<open>
  C5 (as amended). In the Fraction module the term of index \<open>j\<close> is exactly
  \<open>(-1)^j / j! \<cdot> z^(s+j) / (s+j)\<close> when \<open>s\<close> is a positive integer; when \<open>s = n + 1/2\<close> it
  is \<open>(-1)^j / j! \<cdot> p / (s+j)\<close> for the value \<open>p\<close> that the float power of \<open>z\<close> by \<open>s+j\<close>
  gives once converted back, and the error of that power when it raises. In the float
  module the term is \<open>((-1)^j / j!) \<cdot> (z ** (s+j) / (s+j))\<close> in the float operations, and
  the error of the first of them that raises. \<open>gamma\<close> generates the terms in order, at
  most 100 of them (1000 in the float module): when the first \<open>J\<close> terms are computed and
  not below the threshold, and either \<open>J\<close> is that ceiling or term \<open>J\<close> is computed and
  below the threshold, it returns the sum of the first \<open>J\<close> terms, without term \<open>J\<close>. The
  threshold is the float \<^verbatim>\<open>1E-8\<close>, not the decimal fraction.
\<close>

theorem gamma_sums_terms_before_threshold_or_ceiling:
  "(0 < m \<longrightarrow> terms_frac float_pow (of_nat m) z j = Inr (series_term m z j))
   \<and> terms_frac float_pow (of_int n + 1 / 2) z j =
       and_then (float_pow z (of_int n + 1 / 2 + of_nat j))
         (\<lambda>p. Inr ((- 1) ^ j / fact j * (p / (of_int n + 1 / 2 + of_nat j))))
   \<and> terms_flt ops a b j =
       and_then (int_truediv ops ((- 1) ^ j) (fact j)) (\<lambda>c.
       and_then (f_pow ops b (f_add ops a (f_of_int ops (int j)))) (\<lambda>p.
       and_then (f_truediv ops p (f_add ops a (f_of_int ops (int j)))) (\<lambda>q.
       Inr (f_mul ops c q))))
   \<and> (J \<le> 100
        \<and> (\<forall>j<J. terms_frac float_pow s z' j = Inr (t j) \<and> \<not> \<bar>t j\<bar> < \<epsilon>_frac)
        \<and> (J < 100 \<longrightarrow> terms_frac float_pow s z' J = Inr (t J) \<and> \<bar>t J\<bar> < \<epsilon>_frac)
      \<longrightarrow> (\<exists>w. gamma_frac float_pow s z' = Inr (\<Sum>j<J. t j, w)))
   \<and> (K \<le> 1000
        \<and> (\<forall>j<K. terms_flt ops a b j = Inr (u j)
                \<and> \<not> f_less ops (f_abs ops (u j)) (\<epsilon>_flt ops))
        \<and> (K < 1000 \<longrightarrow> terms_flt ops a b K = Inr (u K)
                \<and> f_less ops (f_abs ops (u K)) (\<epsilon>_flt ops))
      \<longrightarrow> gamma_flt ops a b = Inr (f_sum ops (map u [0..<K])))"
proof (intro conjI impI)
  assume "0 < m"
  then show "terms_frac float_pow (of_nat m) z j = Inr (series_term m z j)"
    by (simp add: terms_frac_nat)
next
  show "terms_frac float_pow (of_int n + 1 / 2) z j =
       and_then (float_pow z (of_int n + 1 / 2 + of_nat j))
         (\<lambda>p. Inr ((- 1) ^ j / fact j * (p / (of_int n + 1 / 2 + of_nat j))))"
    by (rule terms_frac_half)
next
  show "terms_flt ops a b j =
       and_then (int_truediv ops ((- 1) ^ j) (fact j)) (\<lambda>c.
       and_then (f_pow ops b (f_add ops a (f_of_int ops (int j)))) (\<lambda>p.
       and_then (f_truediv ops p (f_add ops a (f_of_int ops (int j)))) (\<lambda>q.
       Inr (f_mul ops c q))))"
    by (rule terms_flt_eq)
next
  assume "J \<le> 100
        \<and> (\<forall>j<J. terms_frac float_pow s z' j = Inr (t j) \<and> \<not> \<bar>t j\<bar> < \<epsilon>_frac)
        \<and> (J < 100 \<longrightarrow> terms_frac float_pow s z' J = Inr (t J) \<and> \<bar>t J\<bar> < \<epsilon>_frac)"
  then show "\<exists>w. gamma_frac float_pow s z' = Inr (\<Sum>j<J. t j, w)"
    using gamma_frac_upto [of J float_pow s z' t] by blast
next
  assume "K \<le> 1000
        \<and> (\<forall>j<K. terms_flt ops a b j = Inr (u j)
                \<and> \<not> f_less ops (f_abs ops (u j)) (\<epsilon>_flt ops))
        \<and> (K < 1000 \<longrightarrow> terms_flt ops a b K = Inr (u K)
                \<and> f_less ops (f_abs ops (u K)) (\<epsilon>_flt ops))"
  then show "gamma_flt ops a b = Inr (f_sum ops (map u [0..<K]))"
    using gamma_flt_upto [of K ops a b u] by blast
qed

theorem gamma_sums_terms_before_threshold_or_ceiling_witness:
  "terms_frac float_pow_trap (of_nat 1) (1 / 2) 3 = Inr (series_term 1 (1 / 2) 3)
   \<and> terms_frac float_pow_trap (of_int 0 + 1 / 2) (1 / 2) 3 =
       and_then (float_pow_trap (1 / 2) (of_int 0 + 1 / 2 + of_nat 3))
         (\<lambda>p. Inr ((- 1) ^ 3 / fact 3 * (p / (of_int 0 + 1 / 2 + of_nat 3))))
   \<and> terms_flt real_ops 1 (1 / 2) 3 =
       and_then (int_truediv real_ops ((- 1) ^ 3) (fact 3)) (\<lambda>c.
       and_then (f_pow real_ops (1 / 2) (f_add real_ops 1 (f_of_int real_ops (int 3)))) (\<lambda>p.
       and_then (f_truediv real_ops p (f_add real_ops 1 (f_of_int real_ops (int 3)))) (\<lambda>q.
       Inr (f_mul real_ops c q))))
   \<and> (\<exists>w. gamma_frac float_pow_trap 1 (1 / 2) = Inr (\<Sum>j<8. series_term 1 (1 / 2) j, w))
   \<and> gamma_flt real_ops 1 (1 / 2) =
       Inr (f_sum real_ops (map (\<lambda>j. of_rat (series_term 1 (1 / 2) j)) [0..<8]))"
proof -
  note inst = gamma_sums_terms_before_threshold_or_ceiling
      [of 1 float_pow_trap "1 / 2" 3 0 real_ops 1 "1 / 2" 8 1 "1 / 2" "series_term 1 (1 / 2)" 8
          "\<lambda>j. of_rat (series_term 1 (1 / 2) j)"]
  have hyp_frac: "8 \<le> (100 :: nat)
        \<and> (\<forall>j<8. terms_frac float_pow_trap 1 (1 / 2) j = Inr (series_term 1 (1 / 2) j)
                \<and> \<not> \<bar>series_term 1 (1 / 2) j\<bar> < \<epsilon>_frac)
        \<and> ((8 :: nat) < 100 \<longrightarrow> terms_frac float_pow_trap 1 (1 / 2) 8 = Inr (series_term 1 (1 / 2) 8)
                \<and> \<bar>series_term 1 (1 / 2) 8\<bar> < \<epsilon>_frac)"
    using terms_1_half_frac [of float_pow_trap] term_8_half_frac [of float_pow_trap] term_1_half_8
    by simp
  have hyp_flt: "8 \<le> (1000 :: nat)
        \<and> (\<forall>j<8. terms_flt real_ops 1 (1 / 2) j = Inr (of_rat (series_term 1 (1 / 2) j))
                \<and> \<not> f_less real_ops (f_abs real_ops (of_rat (series_term 1 (1 / 2) j))) (\<epsilon>_flt real_ops))
        \<and> ((8 :: nat) < 1000 \<longrightarrow> terms_flt real_ops 1 (1 / 2) 8 = Inr (of_rat (series_term 1 (1 / 2) 8))
                \<and> f_less real_ops (f_abs real_ops (of_rat (series_term 1 (1 / 2) 8))) (\<epsilon>_flt real_ops))"
    using terms_1_half_real term_8_half_real by simp
  have c1: "terms_frac float_pow_trap (of_nat 1) (1 / 2) 3 = Inr (series_term 1 (1 / 2) 3)"
    using inst by simp
  have c2: "terms_frac float_pow_trap (of_int 0 + 1 / 2) (1 / 2) 3 =
       and_then (float_pow_trap (1 / 2) (of_int 0 + 1 / 2 + of_nat 3))
         (\<lambda>p. Inr ((- 1) ^ 3 / fact 3 * (p / (of_int 0 + 1 / 2 + of_nat 3))))"
    using inst by (rule conjunct2 [THEN conjunct1])
  have c3: "terms_flt real_ops 1 (1 / 2) 3 =
       and_then (int_truediv real_ops ((- 1) ^ 3) (fact 3)) (\<lambda>c.
       and_then (f_pow real_ops (1 / 2) (f_add real_ops 1 (f_of_int real_ops (int 3)))) (\<lambda>p.
       and_then (f_truediv real_ops p (f_add real_ops 1 (f_of_int real_ops (int 3)))) (\<lambda>q.
       Inr (f_mul real_ops c q))))"
    using inst by (rule conjunct2 [THEN conjunct2, THEN conjunct1])
  have c4: "\<exists>w. gamma_frac float_pow_trap 1 (1 / 2) = Inr (\<Sum>j<8. series_term 1 (1 / 2) j, w)"
    using inst [THEN conjunct2, THEN conjunct2, THEN conjunct2, THEN conjunct1] hyp_frac
    by (rule mp)
  have c5: "gamma_flt real_ops 1 (1 / 2) =
       Inr (f_sum real_ops (map (\<lambda>j. of_rat (series_term 1 (1 / 2) j)) [0..<8]))"
    using inst [THEN conjunct2, THEN conjunct2, THEN conjunct2, THEN conjunct2] hyp_flt
    by (rule mp)
  show ?thesis using c1 c2 c3 c4 c5 by (intro conjI)
qed

text \<open>
  C5 as stated fails at \<open>s = 1\<close>, \<open>z = 40\<close> in the Fraction module: the first term below the
  threshold has index 122, the code returns the sum of the terms of index below 100
  only, and the two sums differ.
\<close>

theorem gamma_sum_counterexample:
  "gamma_frac float_pow_trap 1 40 =
     Inr (\<Sum>j<100. series_term 1 40 j, [''More than 100 terms''])
   \<and> \<not> (\<exists>j<122. \<bar>series_term 1 40 j\<bar> < \<epsilon>_frac)
   \<and> \<bar>series_term 1 40 122\<bar> < \<epsilon>_frac
   \<and> (\<Sum>j<100. series_term 1 40 j) \<noteq> (\<Sum>j<122. series_term 1 40 j)"
proof (intro conjI)
  show "gamma_frac float_pow_trap 1 40 =
     Inr (\<Sum>j<100. series_term 1 40 j, [''More than 100 terms''])"
    using gamma_frac_nat_exhaust [of 1 40 float_pow_trap] term_1_40_first term_1_40_99 by simp
  show "\<not> (\<exists>j<122. \<bar>series_term 1 40 j\<bar> < \<epsilon>_frac)"
  proof
    assume "\<exists>j<122. \<bar>series_term 1 40 j\<bar> < \<epsilon>_frac"
    then obtain j :: nat where j: "j < 122" "\<bar>series_term 1 40 j\<bar> < \<epsilon>_frac" by blast
    then have "j \<le> 121" by simp
    then have "\<epsilon>_frac \<le> \<bar>series_term 1 40 j\<bar>"
      using abs_series_term_unimodal [of 1 40 j 121 \<epsilon>_frac] term_1_40_first term_1_40_121
      by simp
    then show False using j(2) by simp
  qed
  show "\<bar>series_term 1 40 122\<bar> < \<epsilon>_frac" by (rule term_1_40_122)
  show "(\<Sum>j<100. series_term 1 40 j) \<noteq> (\<Sum>j<122. series_term 1 40 j)"
    by (rule sum_1_40_differ)
qed

text \<open>
  C6 (as amended). The Fraction module has a ceiling of 100 terms. \<open>gamma\<close> returns \<open>g\<close>
  with the warnings \<open>w\<close> exactly when, for some \<open>J \<le> 100\<close>, the terms of index below \<open>J\<close>
  are computed and not below the threshold, \<open>J\<close> is 100 or term \<open>J\<close> is computed and below
  the threshold, \<open>g\<close> is the sum of the terms of index below \<open>J\<close>, and \<open>w\<close> is
  \<^verbatim>\<open>More than 100 terms\<close> if \<open>J = 100\<close> and empty otherwise. So the warning is issued if and
  only if all 100 terms are computed and none is below the threshold, and the sum of
  these 100 terms is then returned all the same. The float module has a ceiling of 1000
  terms: \<open>gamma\<close> returns \<open>h\<close> exactly when \<open>h\<close> is the float sum of the terms of index below
  some \<open>K \<le> 1000\<close> of the same description.
\<close>

theorem gamma_ceiling_and_warning:
  "(gamma_frac float_pow s z = Inr (g, w) \<longleftrightarrow>
      (\<exists>J\<le>100. \<exists>t. (\<forall>j<J. terms_frac float_pow s z j = Inr (t j) \<and> \<not> \<bar>t j\<bar> < \<epsilon>_frac)
         \<and> (J < 100 \<longrightarrow> terms_frac float_pow s z J = Inr (t J) \<and> \<bar>t J\<bar> < \<epsilon>_frac)
         \<and> g = (\<Sum>j<J. t j)
         \<and> w = (if J = 100 then [''More than 100 terms''] else [])))
   \<and> (gamma_frac float_pow s z = Inr (g, w) \<longrightarrow>
        (w = [''More than 100 terms''] \<longleftrightarrow>
           (\<forall>j<100. \<exists>t. terms_frac float_pow s z j = Inr t \<and> \<not> \<bar>t\<bar> < \<epsilon>_frac))
        \<and> (w = [] \<longleftrightarrow>
           \<not> (\<forall>j<100. \<exists>t. terms_frac float_pow s z j = Inr t \<and> \<not> \<bar>t\<bar> < \<epsilon>_frac)))
   \<and> ((\<forall>j<100. terms_frac float_pow s z j = Inr (t' j) \<and> \<not> \<bar>t' j\<bar> < \<epsilon>_frac) \<longrightarrow>
        gamma_frac float_pow s z = Inr (\<Sum>j<100. t' j, [''More than 100 terms'']))
   \<and> (gamma_flt ops a b = Inr h \<longleftrightarrow>
        (\<exists>K\<le>1000. \<exists>u. (\<forall>j<K. terms_flt ops a b j = Inr (u j)
                            \<and> \<not> f_less ops (f_abs ops (u j)) (\<epsilon>_flt ops))
           \<and> (K < 1000 \<longrightarrow> terms_flt ops a b K = Inr (u K)
                            \<and> f_less ops (f_abs ops (u K)) (\<epsilon>_flt ops))
           \<and> h = f_sum ops (map u [0..<K])))"
proof (intro conjI)
  show "gamma_frac float_pow s z = Inr (g, w) \<longleftrightarrow>
      (\<exists>J\<le>100. \<exists>t. (\<forall>j<J. terms_frac float_pow s z j = Inr (t j) \<and> \<not> \<bar>t j\<bar> < \<epsilon>_frac)
         \<and> (J < 100 \<longrightarrow> terms_frac float_pow s z J = Inr (t J) \<and> \<bar>t J\<bar> < \<epsilon>_frac)
         \<and> g = (\<Sum>j<J. t j)
         \<and> w = (if J = 100 then [''More than 100 terms''] else []))"
    by (rule gamma_frac_iff)
  show "gamma_frac float_pow s z = Inr (g, w) \<longrightarrow>
        (w = [''More than 100 terms''] \<longleftrightarrow>
           (\<forall>j<100. \<exists>t. terms_frac float_pow s z j = Inr t \<and> \<not> \<bar>t\<bar> < \<epsilon>_frac))
        \<and> (w = [] \<longleftrightarrow>
           \<not> (\<forall>j<100. \<exists>t. terms_frac float_pow s z j = Inr t \<and> \<not> \<bar>t\<bar> < \<epsilon>_frac))"
    using gamma_frac_warning_iff [of float_pow s z g w] by blast
  show "(\<forall>j<100. terms_frac float_pow s z j = Inr (t' j) \<and> \<not> \<bar>t' j\<bar> < \<epsilon>_frac) \<longrightarrow>
        gamma_frac float_pow s z = Inr (\<Sum>j<100. t' j, [''More than 100 terms''])"
    using gamma_frac_upto [of 100 float_pow s z t'] by simp
  show "gamma_flt ops a b = Inr h \<longleftrightarrow>
        (\<exists>K\<le>1000. \<exists>u. (\<forall>j<K. terms_flt ops a b j = Inr (u j)
                            \<and> \<not> f_less ops (f_abs ops (u j)) (\<epsilon>_flt ops))
           \<and> (K < 1000 \<longrightarrow> terms_flt ops a b K = Inr (u K)
                            \<and> f_less ops (f_abs ops (u K)) (\<epsilon>_flt ops))
           \<and> h = f_sum ops (map u [0..<K]))"
    by (rule gamma_flt_iff)
qed

theorem gamma_ceiling_and_warning_witness:
  "gamma_frac float_pow_trap 1 (1 / 2) = Inr (\<Sum>j<8. series_term 1 (1 / 2) j, [])
   \<and> \<not> (\<forall>j<100. \<exists>t. terms_frac float_pow_trap 1 (1 / 2) j = Inr t \<and> \<not> \<bar>t\<bar> < \<epsilon>_frac)
   \<and> gamma_frac float_pow_trap 1 40 = Inr (\<Sum>j<100. series_term 1 40 j, [''More than 100 terms''])
   \<and> gamma_flt real_ops 1 (1 / 2) =
       Inr (f_sum real_ops (map (\<lambda>j. of_rat (series_term 1 (1 / 2) j)) [0..<8]))"
proof -
  note inst1 = gamma_ceiling_and_warning
      [of float_pow_trap 1 "1 / 2" "\<Sum>j<8. series_term 1 (1 / 2) j" "[]" "series_term 1 40" real_ops 1 "1 / 2"
          "f_sum real_ops (map (\<lambda>j. of_rat (series_term 1 (1 / 2) j)) [0..<8])"]
  note inst2 = gamma_ceiling_and_warning
      [of float_pow_trap 1 40 0 "[]" "series_term 1 40" real_ops 1 "1 / 2" 0]
  have rhs1: "\<exists>J\<le>100. \<exists>t. (\<forall>j<J. terms_frac float_pow_trap 1 (1 / 2) j = Inr (t j) \<and> \<not> \<bar>t j\<bar> < \<epsilon>_frac)
         \<and> (J < 100 \<longrightarrow> terms_frac float_pow_trap 1 (1 / 2) J = Inr (t J) \<and> \<bar>t J\<bar> < \<epsilon>_frac)
         \<and> (\<Sum>j<8. series_term 1 (1 / 2) j) = (\<Sum>j<J. t j)
         \<and> ([] :: string list) = (if J = 100 then [''More than 100 terms''] else [])"
    using terms_1_half_frac [of float_pow_trap] term_8_half_frac [of float_pow_trap] term_1_half_8
    by (intro ex_le_exI [where J = 8 and t = "series_term 1 (1 / 2)"]) simp_all
  have a: "gamma_frac float_pow_trap 1 (1 / 2) = Inr (\<Sum>j<8. series_term 1 (1 / 2) j, [])"
    using inst1 [THEN conjunct1] rhs1 by (rule iffD2)
  have b: "\<not> (\<forall>j<100. \<exists>t. terms_frac float_pow_trap 1 (1 / 2) j = Inr t \<and> \<not> \<bar>t\<bar> < \<epsilon>_frac)"
    using inst1 [THEN conjunct2, THEN conjunct1] a by blast
  have c: "gamma_frac float_pow_trap 1 40 = Inr (\<Sum>j<100. series_term 1 40 j, [''More than 100 terms''])"
    using inst2 [THEN conjunct2, THEN conjunct2, THEN conjunct1] terms_1_40_all [of float_pow_trap]
    by (rule mp)
  have rhs4: "\<exists>K\<le>1000. \<exists>u. (\<forall>j<K. terms_flt real_ops 1 (1 / 2) j = Inr (u j)
                            \<and> \<not> f_less real_ops (f_abs real_ops (u j)) (\<epsilon>_flt real_ops))
           \<and> (K < 1000 \<longrightarrow> terms_flt real_ops 1 (1 / 2) K = Inr (u K)
                            \<and> f_less real_ops (f_abs real_ops (u K)) (\<epsilon>_flt real_ops))
           \<and> f_sum real_ops (map (\<lambda>j. of_rat (series_term 1 (1 / 2) j)) [0..<8])
               = f_sum real_ops (map u [0..<K])"
    using terms_1_half_real term_8_half_real
    by (intro ex_le_exI [where J = 8 and t = "\<lambda>j. of_rat (series_term 1 (1 / 2) j)"]) simp_all
  have d: "gamma_flt real_ops 1 (1 / 2) =
       Inr (f_sum real_ops (map (\<lambda>j. of_rat (series_term 1 (1 / 2) j)) [0..<8]))"
    using inst1 [THEN conjunct2, THEN conjunct2, THEN conjunct2] rhs4 by (rule iffD2)
  show ?thesis using a b c d by (intro conjI)
qed

text \<open>
  C6 as stated fails in the Fraction module, whose ceiling is 100 terms and not of the
  order of 1000: at \<open>s = 2\<close>, \<open>z = 45\<close> the sum stops after the terms of index below 100,
  although the term of index 100 is not below the threshold.
\<close>

theorem gamma_ceiling_counterexample:
  "gamma_frac float_pow_trap 2 45 =
     Inr (\<Sum>j<100. series_term 2 45 j, [''More than 100 terms''])
   \<and> \<not> \<bar>series_term 2 45 100\<bar> < \<epsilon>_frac"
proof
  show "gamma_frac float_pow_trap 2 45 =
     Inr (\<Sum>j<100. series_term 2 45 j, [''More than 100 terms''])"
    using gamma_frac_nat_exhaust [of 2 45 float_pow_trap] term_2_45_first term_2_45_99 by simp
  show "\<not> \<bar>series_term 2 45 100\<bar> < \<epsilon>_frac"
    using term_2_45_100 by simp
qed

text \<open>
  C8 (as amended). The Fraction selector has no tolerance and no approximator: for
  \<open>k = n + 1/2\<close> exactly (denominator 2, \<open>n \<ge> 0\<close>) it returns
  \<open>(2n)! / (4^n \<cdot> n!) \<cdot> sqrt_pi\<close> with the rational \<open>sqrt_pi\<close>; for an integral \<open>k\<close> it
  returns \<open>fact(k - 1)\<close>; for any other argument it raises \<open>ValueError\<close>. The float
  selector tests \<open>abs(k - int(k) - .5) < 1E-6\<close>. When the test fails it delegates to the
  Nemes form \<open>Gamma2\<close>. When the test holds and \<open>k\<close> is not below the half-integer, that is
  \<open>int(k - .5) = int(k) = n \<ge> 0\<close>, it returns \<open>(2n)! / (4^n \<cdot> n!) \<cdot> sqrt(pi)\<close> in the float
  operations. What it returns when the test holds for a \<open>k\<close> below the half-integer is
  left out here.
\<close>

theorem Gamma_Half_dispatch:
  "(0 \<le> n \<longrightarrow>
      Gamma_Half_frac (of_int n + 1 / 2) =
        Inr (of_int (fact (nat (2 * n))) / (4 ^ nat n * of_int (fact (nat n))) * sqrt_pi))
   \<and> Gamma_Half_frac (of_int i) = Inr (of_int (fact (nat (i - 1))))
   \<and> (snd (quotient_of k) \<noteq> 1 \<and> snd (quotient_of k) \<noteq> 2 \<longrightarrow> Gamma_Half_frac k = Inl ValueError)
   \<and> (f_int ops x = Inr n'
        \<and> f_less ops (f_abs ops (f_sub ops (f_sub ops x (f_of_int ops n')) (f_const ops (1 / 2))))
             (f_const ops (1 / 10 ^ 6))
        \<and> f_int ops (f_sub ops x (f_const ops (1 / 2))) = Inr n' \<and> 0 \<le> n'
      \<longrightarrow> Gamma_Half_flt ops x =
            and_then (int_truediv ops (fact (nat (2 * n'))) (4 ^ nat n' * fact (nat n'))) (\<lambda>q.
            and_then (f_sqrt ops (f_pi ops)) (\<lambda>r. Inr (f_mul ops q r))))
   \<and> (f_int ops x = Inr ix
        \<and> \<not> f_less ops (f_abs ops (f_sub ops (f_sub ops x (f_of_int ops ix)) (f_const ops (1 / 2))))
             (f_const ops (1 / 10 ^ 6))
      \<longrightarrow> Gamma_Half_flt ops x = Gamma2 ops x)"
proof (intro conjI impI)
  assume "0 \<le> n"
  then show "Gamma_Half_frac (of_int n + 1 / 2) =
        Inr (of_int (fact (nat (2 * n))) / (4 ^ nat n * of_int (fact (nat n))) * sqrt_pi)"
    by (rule Gamma_Half_frac_half)
next
  show "Gamma_Half_frac (of_int i) = Inr (of_int (fact (nat (i - 1))))"
    by (rule Gamma_Half_frac_integer)
next
  assume "snd (quotient_of k) \<noteq> 1 \<and> snd (quotient_of k) \<noteq> 2"
  then show "Gamma_Half_frac k = Inl ValueError" by (simp add: Gamma_Half_frac_def)
next
  assume "f_int ops x = Inr n'
        \<and> f_less ops (f_abs ops (f_sub ops (f_sub ops x (f_of_int ops n')) (f_const ops (1 / 2))))
             (f_const ops (1 / 10 ^ 6))
        \<and> f_int ops (f_sub ops x (f_const ops (1 / 2))) = Inr n' \<and> 0 \<le> n'"
  then show "Gamma_Half_flt ops x =
            and_then (int_truediv ops (fact (nat (2 * n'))) (4 ^ nat n' * fact (nat n'))) (\<lambda>q.
            and_then (f_sqrt ops (f_pi ops)) (\<lambda>r. Inr (f_mul ops q r)))"
    using Gamma_Half_flt_half [of ops x n' n'] by blast
next
  assume "f_int ops x = Inr ix
        \<and> \<not> f_less ops (f_abs ops (f_sub ops (f_sub ops x (f_of_int ops ix)) (f_const ops (1 / 2))))
             (f_const ops (1 / 10 ^ 6))"
  then show "Gamma_Half_flt ops x = Gamma2 ops x"
    using Gamma_Half_flt_other [of ops x ix] by blast
qed

theorem Gamma_Half_dispatch_witness:
  "Gamma_Half_frac (3 / 2) = Inr (sqrt_pi / 2)
   \<and> Gamma_Half_frac 3 = Inr 2
   \<and> Gamma_Half_frac (1 / 3) = Inl ValueError
   \<and> Gamma_Half_flt real_ops (3 / 2) =
       and_then (int_truediv real_ops (fact (nat (2 * 1))) (4 ^ nat 1 * fact (nat 1))) (\<lambda>q.
       and_then (f_sqrt real_ops (f_pi real_ops)) (\<lambda>r. Inr (f_mul real_ops q r)))
   \<and> Gamma_Half_flt real_ops 1 = Gamma2 real_ops 1"
proof -
  have third: "snd (quotient_of (1 / 3)) \<noteq> 1 \<and> snd (quotient_of (1 / 3)) \<noteq> 2"
    by code_simp
  have a: "f_int real_ops 1 = Inr 1" by (simp add: real_ops_def)
  have b: "\<not> f_less real_ops
             (f_abs real_ops (f_sub real_ops (f_sub real_ops 1 (f_of_int real_ops 1))
                (f_const real_ops (1 / 2))))
             (f_const real_ops (1 / 10 ^ 6))"
    by (simp add: real_ops_def of_rat_divide)
  have fl: "\<lfloor>3 / 2 :: real\<rfloor> = 1" by linarith
  have h1: "f_int real_ops (3 / 2) = Inr 1" by (simp add: real_ops_def fl)
  have h2: "f_less real_ops
             (f_abs real_ops (f_sub real_ops (f_sub real_ops (3 / 2) (f_of_int real_ops 1))
                (f_const real_ops (1 / 2))))
             (f_const real_ops (1 / 10 ^ 6))"
    by (simp add: real_ops_def of_rat_divide)
  have h3: "f_int real_ops (f_sub real_ops (3 / 2) (f_const real_ops (1 / 2))) = Inr 1"
    by (simp add: real_ops_def of_rat_divide)
  note inst = Gamma_Half_dispatch [of 1 3 "1 / 3" real_ops 1 1 1]
  note inst' = Gamma_Half_dispatch [of 1 3 "1 / 3" real_ops "3 / 2" 1 1]
  have n2: "nat (2 * 1) = 2" and n1: "nat 1 = 1" and n3: "nat (3 - 1) = 2" by simp_all
  have f2: "fact 2 = (2 :: int)" and f1: "fact 1 = (1 :: int)" by (simp_all add: fact_numeral)
  have c1: "Gamma_Half_frac (of_int 1 + 1 / 2) =
        Inr (of_int (fact (nat (2 * 1))) / (4 ^ nat 1 * of_int (fact (nat 1))) * sqrt_pi)"
    using inst by simp
  have e1: "(of_int 1 + 1 / 2 :: rat) = 3 / 2" by simp
  have w1: "Gamma_Half_frac (3 / 2) = Inr (sqrt_pi / 2)"
    using c1 unfolding e1 n2 n1 f2 f1 by simp
  have c3: "Gamma_Half_frac (of_int 3) = Inr (of_int (fact (nat (3 - 1))))"
    using inst by (rule conjunct2 [THEN conjunct1])
  have w3: "Gamma_Half_frac 3 = Inr 2"
    using c3 unfolding n3 f2 by simp
  have w4: "Gamma_Half_frac (1 / 3) = Inl ValueError"
    using inst third by blast
  have w2: "Gamma_Half_flt real_ops (3 / 2) =
       and_then (int_truediv real_ops (fact (nat (2 * 1))) (4 ^ nat 1 * fact (nat 1))) (\<lambda>q.
       and_then (f_sqrt real_ops (f_pi real_ops)) (\<lambda>r. Inr (f_mul real_ops q r)))"
    using inst' [THEN conjunct2, THEN conjunct2, THEN conjunct2, THEN conjunct1] h1 h2 h3
    by simp
  have w5: "Gamma_Half_flt real_ops 1 = Gamma2 real_ops 1"
    using inst a b by blast
  show ?thesis using w1 w3 w4 w2 w5 by (intro conjI)
qed

text \<open>
  C8 as stated fails in the Fraction module: \<open>5000001/10000000\<close> is within \<open>1E-6\<close> of
  the half-integer \<open>1/2\<close>, and the selector raises \<open>ValueError\<close> instead of returning the
  closed form.
\<close>

theorem Gamma_Half_tolerance_counterexample:
  "Gamma_Half_frac (5000001 / 10000000) = Inl ValueError
   \<and> \<bar>5000001 / 10000000 - (0 + 1 / 2)\<bar> < (1 / 10 ^ 6 :: rat)"
proof
  show "Gamma_Half_frac (5000001 / 10000000) = Inl ValueError" by code_simp
  show "\<bar>5000001 / 10000000 - (0 + 1 / 2)\<bar> < (1 / 10 ^ 6 :: rat)" by simp
qed

text \<open>
  C1. For every \<open>x \<ge> 0\<close> and integer \<open>k \<ge> 1\<close>, the Fraction \<open>cdf\<close> is
  \<open>1 - gamma(k/2, x/2) / Gamma_Half(k/2)\<close>: the selector returns a positive value \<open>G\<close>
  without raising, and the result is \<open>1 - g / G\<close> for the value \<open>g\<close> that \<open>gamma\<close> returns
  (with its warnings), or the error that \<open>gamma\<close> raises; for an even \<open>k\<close> it does return.
  The float \<open>cdf\<close> returns \<open>p\<close> exactly when \<open>k/2\<close>, \<open>x/2\<close>, \<open>gamma\<close>, \<open>Gamma_Half\<close> and the
  quotient return values \<open>s\<close>, \<open>z\<close>, \<open>g\<close>, \<open>G\<close>, \<open>q\<close> with \<open>p = 1 - q\<close> in float arithmetic.
\<close>

theorem cdf_is_one_minus_gamma_ratio:
  "(1 \<le> k \<and> 0 \<le> x \<longrightarrow>
      (\<exists>G. Gamma_Half_frac (Fract k 2) = Inr G \<and> 0 < G
         \<and> cdf_frac float_pow x k =
             and_then (gamma_frac float_pow (Fract k 2) (x / 2))
               (\<lambda>(g, warned). Inr (1 - g / G, warned))))
   \<and> (1 \<le> k \<and> even k \<longrightarrow> (\<exists>p w. cdf_frac float_pow x k = Inr (p, w)))
   \<and> (cdf_flt ops y k = Inr p \<longleftrightarrow>
        (\<exists>s z g G q. int_truediv ops k 2 = Inr s \<and> f_truediv ops y (f_of_int ops 2) = Inr z
           \<and> gamma_flt ops s z = Inr g \<and> Gamma_Half_flt ops s = Inr G
           \<and> f_truediv ops g G = Inr q \<and> p = f_sub ops (f_of_int ops 1) q))"
proof (intro conjI impI)
  assume "1 \<le> k \<and> 0 \<le> x"
  then obtain G where G: "Gamma_Half_frac (Fract k 2) = Inr G" "0 < G"
    using Gamma_Half_frac_pos [of k] by blast
  then have "G \<noteq> 0" by simp
  from cdf_frac_eq [OF G(1) this, of float_pow x] G
  show "\<exists>G. Gamma_Half_frac (Fract k 2) = Inr G \<and> 0 < G
         \<and> cdf_frac float_pow x k =
             and_then (gamma_frac float_pow (Fract k 2) (x / 2))
               (\<lambda>(g, warned). Inr (1 - g / G, warned))"
    by blast
next
  assume "1 \<le> k \<and> even k"
  then obtain j where j: "k = 2 * j" and "1 \<le> k" by (auto elim: evenE)
  then have "1 \<le> j" by simp
  define m where "m = nat j"
  have m: "k = 2 * int m" "0 < m" unfolding m_def using j \<open>1 \<le> j\<close> by simp_all
  from cdf_frac_even [OF m(2), of float_pow x] show "\<exists>p w. cdf_frac float_pow x k = Inr (p, w)"
    unfolding m(1) by blast
next
  show "cdf_flt ops y k = Inr p \<longleftrightarrow>
        (\<exists>s z g G q. int_truediv ops k 2 = Inr s \<and> f_truediv ops y (f_of_int ops 2) = Inr z
           \<and> gamma_flt ops s z = Inr g \<and> Gamma_Half_flt ops s = Inr G
           \<and> f_truediv ops g G = Inr q \<and> p = f_sub ops (f_of_int ops 1) q)"
  proof
    assume "cdf_flt ops y k = Inr p"
    then show "\<exists>s z g G q. int_truediv ops k 2 = Inr s \<and> f_truediv ops y (f_of_int ops 2) = Inr z
           \<and> gamma_flt ops s z = Inr g \<and> Gamma_Half_flt ops s = Inr G
           \<and> f_truediv ops g G = Inr q \<and> p = f_sub ops (f_of_int ops 1) q"
      unfolding cdf_flt_def and_then_eq_Inr by auto
  next
    assume "\<exists>s z g G q. int_truediv ops k 2 = Inr s \<and> f_truediv ops y (f_of_int ops 2) = Inr z
           \<and> gamma_flt ops s z = Inr g \<and> Gamma_Half_flt ops s = Inr G
           \<and> f_truediv ops g G = Inr q \<and> p = f_sub ops (f_of_int ops 1) q"
    then show "cdf_flt ops y k = Inr p" using cdf_flt_eq [of ops k _ y] by blast
  qed
qed

theorem cdf_is_one_minus_gamma_ratio_witness:
  "(\<exists>G. Gamma_Half_frac (Fract 2 2) = Inr G \<and> 0 < G
      \<and> cdf_frac float_pow_trap 1 2 =
          and_then (gamma_frac float_pow_trap (Fract 2 2) (1 / 2))
            (\<lambda>(g, warned). Inr (1 - g / G, warned)))
   \<and> (\<exists>p w. cdf_frac float_pow_trap 1 2 = Inr (p, w))
   \<and> (\<exists>p. cdf_flt real_ops 1 2 = Inr p)"
proof -
  define g where "g = f_sum real_ops (map (\<lambda>j. of_rat (series_term 1 (1 / 2) j)) [0..<8])"
  define G where "G = sqrt (2 * pi) * (129 / 119 / exp 1)"
  have G0: "G \<noteq> 0" unfolding G_def by simp
  have a: "int_truediv real_ops 2 2 = Inr 1" by (simp add: real_ops_def)
  have b: "f_truediv real_ops 1 (f_of_int real_ops 2) = Inr (1 / 2)" by (simp add: real_ops_def)
  have c: "gamma_flt real_ops 1 (1 / 2) = Inr g" unfolding g_def by (rule gamma_flt_1_half)
  have d: "Gamma_Half_flt real_ops 1 = Inr G" unfolding G_def by (rule Gamma_Half_flt_real_1)
  have e: "f_truediv real_ops g G = Inr (g / G)" using G0 by (simp add: real_ops_def)
  have "cdf_flt real_ops 1 2 = Inr (f_sub real_ops (f_of_int real_ops 1) (g / G))"
    using cdf_is_one_minus_gamma_ratio
      [of 2 1 float_pow_trap real_ops 1 "f_sub real_ops (f_of_int real_ops 1) (g / G)"]
      a b c d e by blast
  then have flt: "\<exists>p. cdf_flt real_ops 1 2 = Inr p" by blast
  note inst = cdf_is_one_minus_gamma_ratio [of 2 1 float_pow_trap real_ops 1 0]
  have r1: "\<exists>G. Gamma_Half_frac (Fract 2 2) = Inr G \<and> 0 < G
      \<and> cdf_frac float_pow_trap 1 2 =
          and_then (gamma_frac float_pow_trap (Fract 2 2) (1 / 2))
            (\<lambda>(g, warned). Inr (1 - g / G, warned))"
    using inst by simp
  have r2: "\<exists>p w. cdf_frac float_pow_trap 1 2 = Inr (p, w)"
    using inst by simp
  show ?thesis using r1 r2 flt by blast
qed

text \<open>
  C10 (as amended). In the Fraction module, for a Fraction \<open>x\<close>, an even \<open>k = 2 m\<close> and a
  first term of the series that is not below the threshold, \<open>gamma\<close> and \<open>cdf\<close> return
  a Fraction that no float operation and no conversion influences: it is the same for
  every float arithmetic, and it is the value of the model over the rationals. Float
  operations enter elsewhere: for \<open>s = n + 1/2\<close>, that is for an odd \<open>k\<close>, every power
  \<open>z ** (s + j)\<close> of a term is \<^verbatim>\<open>Fraction(float(z) ** float(s + j))\<close>; and for a float or
  an int \<open>x\<close> the half \<^verbatim>\<open>x/2\<close> is a float division, whose result \<^verbatim>\<open>Fraction(...)\<close> converts.
\<close>

theorem Fraction_module_float_operations:
  "(0 < m \<and> \<not> \<bar>series_term m z 0\<bar> < \<epsilon>_frac \<longrightarrow>
      (\<exists>g w. gamma_repr ops conv (of_nat m) z = Inr (PyFraction g, w)
           \<and> gamma_frac float_pow (of_nat m) z = Inr (g, w)))
   \<and> (0 < m \<and> \<not> \<bar>series_term m (x / 2) 0\<bar> < \<epsilon>_frac \<longrightarrow>
      (\<exists>p w. cdf_repr ops conv (PyFraction x) (2 * int m) = Inr (PyFraction p, w)
           \<and> cdf_frac float_pow x (2 * int m) = Inr (p, w)))
   \<and> terms_frac (Fraction_float_pow ops conv) (of_int n + 1 / 2) z j =
       and_then (Fraction_float_pow ops conv z (of_int n + 1 / 2 + of_nat j))
         (\<lambda>p. Inr ((- 1) ^ j / fact j * (p / (of_int n + 1 / 2 + of_nat j))))
   \<and> cdf_repr ops conv (PyFloat y) k =
       and_then (f_truediv ops y (f_of_int ops 2)) (\<lambda>h.
       and_then (Fraction_of_float conv h) (\<lambda>z.
       cdf_repr ops conv (PyFraction (2 * z)) k))
   \<and> cdf_repr ops conv (PyInt i) k =
       and_then (int_truediv ops i 2) (\<lambda>h.
       and_then (Fraction_of_float conv h) (\<lambda>z.
       cdf_repr ops conv (PyFraction (2 * z)) k))"
proof (intro conjI impI)
  assume a: "0 < m \<and> \<not> \<bar>series_term m z 0\<bar> < \<epsilon>_frac"
  show "\<exists>g w. gamma_repr ops conv (of_nat m) z = Inr (PyFraction g, w)
           \<and> gamma_frac float_pow (of_nat m) z = Inr (g, w)"
    by (rule gamma_repr_nat_nonempty [OF a [THEN conjunct1] a [THEN conjunct2]])
next
  assume a: "0 < m \<and> \<not> \<bar>series_term m (x / 2) 0\<bar> < \<epsilon>_frac"
  show "\<exists>p w. cdf_repr ops conv (PyFraction x) (2 * int m) = Inr (PyFraction p, w)
           \<and> cdf_frac float_pow x (2 * int m) = Inr (p, w)"
    by (rule cdf_repr_even_nonempty [OF a [THEN conjunct1] a [THEN conjunct2]])
next
  show "terms_frac (Fraction_float_pow ops conv) (of_int n + 1 / 2) z j =
       and_then (Fraction_float_pow ops conv z (of_int n + 1 / 2 + of_nat j))
         (\<lambda>p. Inr ((- 1) ^ j / fact j * (p / (of_int n + 1 / 2 + of_nat j))))"
    by (rule terms_frac_half)
next
  show "cdf_repr ops conv (PyFloat y) k =
       and_then (f_truediv ops y (f_of_int ops 2)) (\<lambda>h.
       and_then (Fraction_of_float conv h) (\<lambda>z.
       cdf_repr ops conv (PyFraction (2 * z)) k))"
    by (rule cdf_repr_float)
next
  show "cdf_repr ops conv (PyInt i) k =
       and_then (int_truediv ops i 2) (\<lambda>h.
       and_then (Fraction_of_float conv h) (\<lambda>z.
       cdf_repr ops conv (PyFraction (2 * z)) k))"
    by (rule cdf_repr_int)
qed

theorem Fraction_module_float_operations_witness:
  "(\<exists>g w. gamma_repr real_ops real_conv (of_nat 1) (1 / 2) = Inr (PyFraction g, w)
         \<and> gamma_frac float_pow_trap (of_nat 1) (1 / 2) = Inr (g, w))
   \<and> (\<exists>p w. cdf_repr real_ops real_conv (PyFraction 1) (2 * int 1) = Inr (PyFraction p, w)
         \<and> cdf_frac float_pow_trap 1 (2 * int 1) = Inr (p, w))
   \<and> terms_frac (Fraction_float_pow real_ops real_conv) (of_int 0 + 1 / 2) (1 / 2) 3 =
       and_then (Fraction_float_pow real_ops real_conv (1 / 2) (of_int 0 + 1 / 2 + of_nat 3))
         (\<lambda>p. Inr ((- 1) ^ 3 / fact 3 * (p / (of_int 0 + 1 / 2 + of_nat 3))))
   \<and> cdf_repr real_ops real_conv (PyFloat 1) 2 =
       and_then (f_truediv real_ops 1 (f_of_int real_ops 2)) (\<lambda>h.
       and_then (Fraction_of_float real_conv h) (\<lambda>z.
       cdf_repr real_ops real_conv (PyFraction (2 * z)) 2))
   \<and> cdf_repr real_ops real_conv (PyInt 1) 2 =
       and_then (int_truediv real_ops 1 2) (\<lambda>h.
       and_then (Fraction_of_float real_conv h) (\<lambda>z.
       cdf_repr real_ops real_conv (PyFraction (2 * z)) 2))"
proof -
  have h: "0 < (1::nat) \<and> \<not> \<bar>series_term 1 (1 / 2 :: rat) 0\<bar> < \<epsilon>_frac"
    by (simp add: series_term_def \<epsilon>_frac_def)
  note inst = Fraction_module_float_operations
    [of 1 "1 / 2" real_ops real_conv float_pow_trap 1 0 3 1 2 1]
  note a = inst [THEN conjunct1, THEN mp, OF h]
  note b = inst [THEN conjunct2, THEN conjunct1, THEN mp, OF h]
  note c = inst [THEN conjunct2, THEN conjunct2]
  show ?thesis by (rule conjI [OF a conjI [OF b c]])
qed

text \<open>
  C10 as stated fails at \<^verbatim>\<open>cdf(Fraction(0), 2)\<close>: the first term of the series is 0, so
  \<open>gamma\<close> returns the int 0 that \<^verbatim>\<open>sum\<close> starts from, \<open>Gamma_Half\<close> returns the int
  \<^verbatim>\<open>fact(0)\<close>, their quotient is the float division of two ints, and the result is a float
  subtraction from 1. It also fails at \<^verbatim>\<open>cdf(Fraction(2), 1)\<close>, whose first term is
  \<^verbatim>\<open>Fraction(float(1) ** float(1/2))\<close> divided by \<open>1/2\<close>.
\<close>

theorem Fraction_module_float_counterexample:
  "\<forall>ops conv.
     cdf_repr ops conv (PyFraction 0) 2 =
       and_then (int_truediv ops 0 1) (\<lambda>f. Inr (PyFloat (f_sub ops (f_of_int ops 1) f), []))
     \<and> terms_frac (Fraction_float_pow ops conv) (Fract 1 2) (2 / 2) 0 =
         and_then (float_of_Fraction conv 1) (\<lambda>fa.
         and_then (float_of_Fraction conv (1 / 2)) (\<lambda>fb.
         and_then (f_pow ops fa fb) (\<lambda>p.
         and_then (Fraction_of_float conv p) (\<lambda>r. Inr (r / (1 / 2))))))"
proof (intro allI conjI)
  fix ops :: "'a float_ops" and conv :: "'a conversions"
  have m: "0 < (1::nat)" by simp
  have z: "\<bar>series_term 1 ((0::rat) / 2) 0\<bar> < \<epsilon>_frac"
    by (simp add: series_term_def \<epsilon>_frac_def)
  from cdf_repr_even_empty [OF m z, of ops conv]
  show "cdf_repr ops conv (PyFraction 0) 2 =
       and_then (int_truediv ops 0 1) (\<lambda>f. Inr (PyFloat (f_sub ops (f_of_int ops 1) f), []))"
    by simp
next
  fix ops :: "'a float_ops" and conv :: "'a conversions"
  show "terms_frac (Fraction_float_pow ops conv) (Fract 1 2) (2 / 2) 0 =
         and_then (float_of_Fraction conv 1) (\<lambda>fa.
         and_then (float_of_Fraction conv (1 / 2)) (\<lambda>fb.
         and_then (f_pow ops fa fb) (\<lambda>p.
         and_then (Fraction_of_float conv p) (\<lambda>r. Inr (r / (1 / 2))))))"
    by (rule Fraction_float_pow_first_term)
qed

end
